theory Spec2Isabelle
  imports Complex_Main
begin

section \<open>JavaScript numbers and strings, as far as \<open>index.js\<close> uses them\<close>

subsection \<open>Rounding to a double\<close>

text \<open>
  A JavaScript number is an IEEE 754 double: a sign, 53 significant bits and a binary
  exponent from \<open>-1022\<close> to \<open>1023\<close>. The model reads a finite double as the real
  number it denotes, and an arithmetic operation as the exact operation on the reals
  followed by the rounding of its result to the nearest double, a tie to the one with an
  even significand.
\<close>

definition pow2 :: "int \<Rightarrow> real" where
  "pow2 e = (if 0 \<le> e then 2 ^ nat e else 1 / 2 ^ nat (- e))"

text \<open>The binary exponent of \<open>x\<close>: the \<open>e\<close> with \<open>2^e \<le> |x| < 2^(e+1)\<close>, found by
  halving a value from 2 on and by doubling one below 1.\<close>

function expo_hi :: "real \<Rightarrow> nat" where
  "expo_hi x = (if x < 2 then 0 else Suc (expo_hi (x / 2)))"
  by pat_completeness auto
termination
proof (relation "measure (\<lambda>x. nat \<lfloor>x\<rfloor>)")
  show "wf (measure (\<lambda>x::real. nat \<lfloor>x\<rfloor>))" by simp
next
  fix x :: real
  assume "\<not> x < 2"
  then have "x / 2 \<le> x - 1" by simp
  then have "\<lfloor>x / 2\<rfloor> \<le> \<lfloor>x - 1\<rfloor>" by (rule floor_mono)
  moreover have "2 \<le> \<lfloor>x\<rfloor>" using \<open>\<not> x < 2\<close> by (simp add: le_floor_iff)
  ultimately show "(x / 2, x) \<in> measure (\<lambda>x. nat \<lfloor>x\<rfloor>)" by simp
qed

function expo_lo :: "real \<Rightarrow> nat" where
  "expo_lo x = (if x \<le> 0 \<or> 1 \<le> x then 0 else Suc (expo_lo (2 * x)))"
  by pat_completeness auto
termination
proof (relation "measure (\<lambda>x. nat \<lceil>1 / x\<rceil>)")
  show "wf (measure (\<lambda>x::real. nat \<lceil>1 / x\<rceil>))" by simp
next
  fix x :: real
  assume "\<not> (x \<le> 0 \<or> 1 \<le> x)"
  then have x: "0 < x" "x < 1" by simp_all
  then have "1 < 1 / x" by simp
  then have c: "2 \<le> \<lceil>1 / x\<rceil>" by linarith
  have "1 / x \<le> of_int \<lceil>1 / x\<rceil>" by linarith
  then have "1 / (2 * x) \<le> of_int \<lceil>1 / x\<rceil> / 2" by simp
  also have "\<dots> \<le> of_int (\<lceil>1 / x\<rceil> - 1)" using c by simp
  finally have "\<lceil>1 / (2 * x)\<rceil> \<le> \<lceil>1 / x\<rceil> - 1" by (rule ceiling_le)
  with c have "nat \<lceil>1 / (2 * x)\<rceil> < nat \<lceil>1 / x\<rceil>" by linarith
  then show "(2 * x, x) \<in> measure (\<lambda>x. nat \<lceil>1 / x\<rceil>)" by simp
qed

declare expo_hi.simps [simp del] expo_lo.simps [simp del]

definition exponent :: "real \<Rightarrow> int" where
  "exponent x = (if 1 \<le> \<bar>x\<bar> then int (expo_hi \<bar>x\<bar>) else - int (expo_lo \<bar>x\<bar>))"

text \<open>The doubles around \<open>x\<close> are the multiples of \<open>2^(e-52)\<close>, where \<open>e\<close> is the
  exponent of \<open>x\<close>, and of \<open>2^(-1074)\<close> in the subnormal range.\<close>

definition ulp_exponent :: "real \<Rightarrow> int" where
  "ulp_exponent x = max (exponent x) (- 1022) - 52"

definition round_even :: "real \<Rightarrow> int" where
  "round_even r =
     (let f = \<lfloor>r\<rfloor>; d = r - of_int f
      in if d < 1 / 2 then f else if 1 / 2 < d then f + 1 else if even f then f else f + 1)"

text \<open>The double nearest to \<open>x\<close>, without the bound on the exponent: a value of
  \<open>2^1024\<close> or more stands for an overflow.\<close>

definition fl :: "real \<Rightarrow> real" where
  "fl x = of_int (round_even (x / pow2 (ulp_exponent x))) * pow2 (ulp_exponent x)"

subsection \<open>Numbers\<close>

text \<open>
  \<open>Fin x\<close> is the finite number \<open>x\<close>. The sign of a zero is not represented: it never
  reaches the output of this program, which divides by non-zero constants only and prints
  either zero as \<open>0\<close> (a zero divisor is read as \<open>+0\<close>). The remainder \<open>%\<close>,
  \<open>Math.floor\<close> and \<open>Math.round\<close> are exact on doubles; \<open>/\<close>, \<open>*\<close> and
  \<open>-\<close> round their result.
\<close>

datatype jsnum = Fin real | PInf | NInf | NaN

text \<open>The number that a real result is rounded to: the nearest double, or an infinity
  when that is out of range.\<close>

definition to_double :: "real \<Rightarrow> jsnum" where
  "to_double x =
     (let y = fl x
      in if 2 ^ 1024 \<le> y then PInf else if y \<le> - (2 ^ 1024) then NInf else Fin y)"

fun js_div :: "jsnum \<Rightarrow> jsnum \<Rightarrow> jsnum" where
  "js_div NaN _ = NaN"
| "js_div _ NaN = NaN"
| "js_div (Fin x) (Fin y) =
     (if y = 0 then (if x = 0 then NaN else if 0 < x then PInf else NInf)
      else to_double (x / y))"
| "js_div (Fin x) _ = Fin 0"
| "js_div PInf (Fin y) = (if 0 \<le> y then PInf else NInf)"
| "js_div NInf (Fin y) = (if 0 \<le> y then NInf else PInf)"
| "js_div _ _ = NaN"

text \<open>\<open>%\<close> truncates the quotient towards zero: the result has the sign of the dividend.\<close>

definition trunc :: "real \<Rightarrow> int" where
  "trunc z = (if 0 \<le> z then \<lfloor>z\<rfloor> else - \<lfloor>- z\<rfloor>)"

fun js_rem :: "jsnum \<Rightarrow> jsnum \<Rightarrow> jsnum" where
  "js_rem (Fin x) (Fin y) = (if y = 0 then NaN else Fin (x - y * of_int (trunc (x / y))))"
| "js_rem (Fin x) PInf = Fin x"
| "js_rem (Fin x) NInf = Fin x"
| "js_rem _ _ = NaN"

fun js_sub :: "jsnum \<Rightarrow> jsnum \<Rightarrow> jsnum" where
  "js_sub NaN _ = NaN"
| "js_sub _ NaN = NaN"
| "js_sub (Fin x) (Fin y) = to_double (x - y)"
| "js_sub (Fin x) PInf = NInf"
| "js_sub (Fin x) NInf = PInf"
| "js_sub PInf PInf = NaN"
| "js_sub PInf _ = PInf"
| "js_sub NInf NInf = NaN"
| "js_sub NInf _ = NInf"

fun js_mul :: "jsnum \<Rightarrow> jsnum \<Rightarrow> jsnum" where
  "js_mul NaN _ = NaN"
| "js_mul _ NaN = NaN"
| "js_mul (Fin x) (Fin y) = to_double (x * y)"
| "js_mul (Fin x) PInf = (if x = 0 then NaN else if 0 < x then PInf else NInf)"
| "js_mul (Fin x) NInf = (if x = 0 then NaN else if 0 < x then NInf else PInf)"
| "js_mul PInf (Fin y) = (if y = 0 then NaN else if 0 < y then PInf else NInf)"
| "js_mul NInf (Fin y) = (if y = 0 then NaN else if 0 < y then NInf else PInf)"
| "js_mul PInf PInf = PInf"
| "js_mul NInf NInf = PInf"
| "js_mul _ _ = NInf"

fun Math_floor :: "jsnum \<Rightarrow> jsnum" where
  "Math_floor (Fin x) = Fin (of_int \<lfloor>x\<rfloor>)"
| "Math_floor v = v"

text \<open>\<open>Math.round\<close> rounds to the nearest integer, a tie towards \<open>+\<infinity>\<close>.\<close>

fun Math_round :: "jsnum \<Rightarrow> jsnum" where
  "Math_round (Fin x) = Fin (of_int \<lfloor>x + 1 / 2\<rfloor>)"
| "Math_round v = v"

subsection \<open>Decimal numerals\<close>

definition digit_char :: "nat \<Rightarrow> char" where
  "digit_char d = ''0123456789'' ! (d mod 10)"

function show_nat :: "nat \<Rightarrow> string" where
  "show_nat n = (if n < 10 then [digit_char n] else show_nat (n div 10) @ [digit_char (n mod 10)])"
  by pat_completeness auto
termination
  by (relation "measure (\<lambda>n. n)") auto

declare show_nat.simps [simp del]

definition show_int :: "int \<Rightarrow> string" where
  "show_int i = (if i < 0 then CHR ''-'' # show_nat (nat (- i)) else show_nat (nat i))"

subsection \<open>\<open>String\<close> on a number\<close>

text \<open>
  \<open>Number::toString\<close> prints the shortest decimal numeral that denotes the double:
  integers \<open>n\<close>, \<open>k\<close> and \<open>s\<close> with \<open>k \<ge> 1\<close> and \<open>10^(k-1) \<le> s < 10^k\<close> such
  that \<open>s * 10^(n-k)\<close> rounds to the double, with \<open>k\<close> as small as possible. The
  digits of \<open>s\<close> are then laid out by \<open>n\<close>: as an integer with \<open>n - k\<close> zeros
  behind, with a decimal point, with zeros in front, or in exponent notation when
  \<open>n\<close> is above 21 or below \<open>-5\<close>.
\<close>

definition pow10 :: "int \<Rightarrow> real" where
  "pow10 e = (if 0 \<le> e then 10 ^ nat e else 1 / 10 ^ nat (- e))"

function dec_hi :: "real \<Rightarrow> nat" where
  "dec_hi x = (if x < 10 then 0 else Suc (dec_hi (x / 10)))"
  by pat_completeness auto
termination
proof (relation "measure (\<lambda>x. nat \<lfloor>x\<rfloor>)")
  show "wf (measure (\<lambda>x::real. nat \<lfloor>x\<rfloor>))" by simp
next
  fix x :: real
  assume "\<not> x < 10"
  then have "x / 10 \<le> x - 1" by simp
  then have "\<lfloor>x / 10\<rfloor> \<le> \<lfloor>x - 1\<rfloor>" by (rule floor_mono)
  moreover have "10 \<le> \<lfloor>x\<rfloor>" using \<open>\<not> x < 10\<close> by (simp add: le_floor_iff)
  ultimately show "(x / 10, x) \<in> measure (\<lambda>x. nat \<lfloor>x\<rfloor>)" by simp
qed

function dec_lo :: "real \<Rightarrow> nat" where
  "dec_lo x = (if x \<le> 0 \<or> 1 \<le> x then 0 else Suc (dec_lo (10 * x)))"
  by pat_completeness auto
termination
proof (relation "measure (\<lambda>x. nat \<lceil>1 / x\<rceil>)")
  show "wf (measure (\<lambda>x::real. nat \<lceil>1 / x\<rceil>))" by simp
next
  fix x :: real
  assume "\<not> (x \<le> 0 \<or> 1 \<le> x)"
  then have x: "0 < x" "x < 1" by simp_all
  then have "1 < 1 / x" by simp
  then have c: "2 \<le> \<lceil>1 / x\<rceil>" by linarith
  have "1 / x \<le> of_int \<lceil>1 / x\<rceil>" by linarith
  then have "1 / (10 * x) \<le> of_int \<lceil>1 / x\<rceil> / 10" by simp
  also have "\<dots> \<le> of_int (\<lceil>1 / x\<rceil> - 1)"
  proof -
    from c have "(2::real) \<le> of_int \<lceil>1 / x\<rceil>" by (metis of_int_le_iff of_int_numeral)
    then have "of_int \<lceil>1 / x\<rceil> / 10 \<le> of_int \<lceil>1 / x\<rceil> - (1::real)" by linarith
    then show ?thesis by simp
  qed
  finally have "\<lceil>1 / (10 * x)\<rceil> \<le> \<lceil>1 / x\<rceil> - 1" by (rule ceiling_le)
  with c have "nat \<lceil>1 / (10 * x)\<rceil> < nat \<lceil>1 / x\<rceil>" by linarith
  then show "(10 * x, x) \<in> measure (\<lambda>x. nat \<lceil>1 / x\<rceil>)" by simp
qed

declare dec_hi.simps [simp del] dec_lo.simps [simp del]

text \<open>The decimal exponent of a positive \<open>x\<close>: the \<open>n\<close> with
  \<open>10^(n-1) \<le> x < 10^n\<close>.\<close>

definition dec_exponent :: "real \<Rightarrow> int" where
  "dec_exponent x = (if 1 \<le> x then int (dec_hi x) + 1 else 1 - int (dec_lo x))"

text \<open>The numeral \<open>s\<close> of \<open>k\<close> digits that denotes \<open>x\<close> at the decimal exponent
  \<open>n\<close>, when there is one. It is the numeral just below \<open>x\<close> or the one just above;
  of two that denote \<open>x\<close> the closer is taken, and the even one when both are as
  close.\<close>

definition digits_at :: "real \<Rightarrow> int \<Rightarrow> nat \<Rightarrow> int option" where
  "digits_at x n k =
     (let step = pow10 (n - int k);
          lo = \<lfloor>x / step\<rfloor>;
          hi = lo + 1;
          ok_lo = (fl (of_int lo * step) = x);
          ok_hi = (hi < 10 ^ k \<and> fl (of_int hi * step) = x)
      in if ok_lo \<and> ok_hi then
           (if x - of_int lo * step < of_int hi * step - x then Some lo
            else if of_int hi * step - x < x - of_int lo * step then Some hi
            else if even lo then Some lo else Some hi)
         else if ok_lo then Some lo
         else if ok_hi then Some hi
         else None)"

text \<open>The shortest numeral: the first number of digits, from \<open>k\<close> on, at which there is
  one. Seventeen digits denote every double, so the search from one digit on ends within
  its seventeen rounds.\<close>

fun shortest :: "real \<Rightarrow> int \<Rightarrow> nat \<Rightarrow> nat \<Rightarrow> nat \<times> int" where
  "shortest x n k 0 = (k, \<lfloor>x / pow10 (n - int k)\<rfloor>)"
| "shortest x n k (Suc rounds) =
     (case digits_at x n k of
        Some s \<Rightarrow> (k, s)
      | None \<Rightarrow> shortest x n (k + 1) rounds)"

text \<open>The numeral of a positive double. A double just below a power of ten that this
  power rounds to is denoted by the power itself, in one digit.\<close>

definition positive_toString :: "real \<Rightarrow> string" where
  "positive_toString x =
     (let n0 = dec_exponent x;
          (n, k, s) = (if fl (pow10 n0) = x then (n0 + 1, 1, 1)
                       else (n0, shortest x n0 1 17));
          ds = show_nat (nat s);
          e = n - 1;
          es = (if e < 0 then ''-'' else ''+'') @ show_nat (nat \<bar>e\<bar>)
      in if int k \<le> n \<and> n \<le> 21 then ds @ replicate (nat (n - int k)) CHR ''0''
         else if 0 < n \<and> n \<le> 21 then take (nat n) ds @ ''.'' @ drop (nat n) ds
         else if - 6 < n \<and> n \<le> 0 then ''0.'' @ replicate (nat (- n)) CHR ''0'' @ ds
         else if k = 1 then ds @ ''e'' @ es
         else take 1 ds @ ''.'' @ drop 1 ds @ ''e'' @ es)"

definition Number_toString :: "real \<Rightarrow> string" where
  "Number_toString x =
     (if x = 0 then ''0''
      else if x < 0 then CHR ''-'' # positive_toString (- x)
      else positive_toString x)"

text \<open>
  \<open>String(v)\<close> on a number. An integer below \<open>2^53\<close> in magnitude is a double, which
  no numeral but its own decimal numeral, of all those that are as short, denotes: this
  is what JavaScript prints for it.
\<close>

fun String_of :: "jsnum \<Rightarrow> string" where
  "String_of (Fin x) =
     (if of_int \<lfloor>x\<rfloor> = x \<and> \<bar>x\<bar> < 2 ^ 53 then show_int \<lfloor>x\<rfloor> else Number_toString x)"
| "String_of PInf = ''Infinity''"
| "String_of NInf = ''-Infinity''"
| "String_of NaN = ''NaN''"

text \<open>
  \<open>s.padStart(targetLength, padString)\<close>: the pad string is repeated and cut to fill
  the missing length; a string that is long enough, or an empty pad, leaves \<open>s\<close> as it is.
\<close>

definition padStart :: "nat \<Rightarrow> string \<Rightarrow> string \<Rightarrow> string" where
  "padStart targetLength padString s =
     (if targetLength \<le> length s \<or> padString = [] then s
      else take (targetLength - length s)
             (concat (replicate (targetLength - length s) padString)) @ s)"

section \<open>The subtitle track builder\<close>

text \<open>A transcript segment \<open>{ start, end, text }\<close>. The record is extensible: the
  fields that the transcription response attaches beyond these three (\<open>id\<close>,
  \<open>avg_logprob\<close>, ...) are the \<open>more\<close> part of the record scheme.\<close>

record segment =
  seg_start :: jsnum
  seg_end :: jsnum
  seg_text :: string

definition secondsToSrtTime :: "jsnum \<Rightarrow> string" where
  "secondsToSrtTime totalSeconds =
     (let hours = Math_floor (js_div totalSeconds (Fin 3600));
          minutes = Math_floor (js_div (js_rem totalSeconds (Fin 3600)) (Fin 60));
          seconds = Math_floor (js_rem totalSeconds (Fin 60));
          milliseconds =
            Math_round (js_mul (js_sub totalSeconds (Math_floor totalSeconds)) (Fin 1000));
          hh = padStart 2 ''0'' (String_of hours);
          mm = padStart 2 ''0'' (String_of minutes);
          ss = padStart 2 ''0'' (String_of seconds);
          mmm = padStart 3 ''0'' (String_of milliseconds)
      in hh @ '':'' @ mm @ '':'' @ ss @ '','' @ mmm)"

text \<open>The \<open>forEach\<close> loop of \<open>buildSrtFromSegments\<close>: \<open>i\<close> is the index of the
  segment at the head of the list, \<open>srt\<close> the document so far.\<close>

fun forEach_srt :: "'a segment_scheme list \<Rightarrow> nat \<Rightarrow> string \<Rightarrow> string" where
  "forEach_srt [] i srt = srt"
| "forEach_srt (seg # rest) i srt =
     (let startTime = secondsToSrtTime (seg_start seg);
          endTime = secondsToSrtTime (seg_end seg);
          srt1 = srt @ show_nat (i + 1) @ ''\<newline>'';
          srt2 = srt1 @ startTime @ '' --> '' @ endTime @ ''\<newline>'';
          srt3 = srt2 @ seg_text seg @ ''\<newline>\<newline>''
      in forEach_srt rest (i + 1) srt3)"

definition buildSrtFromSegments :: "'a segment_scheme list \<Rightarrow> string" where
  "buildSrtFromSegments segments = forEach_srt segments 0 ''''"

section \<open>Promises\<close>

text \<open>What a collaborator or the runtime throws: a \<open>TypeError\<close> of the runtime
  (a property read on \<open>undefined\<close>), or the failure that a collaborator (the OpenAI
  client, ffmpeg, the file system) reports, with its reason.\<close>

datatype error = TypeError string | Failure string

datatype 'a promise = Pending | Rejected error | Fulfilled 'a

text \<open>
  \<open>Promise.all(promises)\<close>. \<open>ps ! i\<close> is what the \<open>i\<close>-th promise settles to
  (\<open>Inl\<close> a rejection, \<open>Inr\<close> a value) and \<open>order\<close> lists the indices in the
  order in which the promises settle. Each fulfilment is stored in the slot of its own
  index; the result is fulfilled with the buffer when its last slot is filled, and
  rejected by the first rejection to arrive. An index that names no promise, or one that
  has settled before, changes nothing. While slots are missing the result is pending.
\<close>

fun settle_all :: "(error + 'a) list \<Rightarrow> nat list \<Rightarrow> 'a option list \<Rightarrow> 'a list promise" where
  "settle_all ps [] vals = Pending"
| "settle_all ps (i # order) vals =
     (if i < length ps \<and> i < length vals \<and> vals ! i = None then
        (case ps ! i of
           Inl e \<Rightarrow> Rejected e
         | Inr v \<Rightarrow>
             (case those (vals[i := Some v]) of
                Some vs \<Rightarrow> Fulfilled vs
              | None \<Rightarrow> settle_all ps order (vals[i := Some v])))
      else settle_all ps order vals)"

definition Promise_all :: "(error + 'a) list \<Rightarrow> nat list \<Rightarrow> 'a list promise" where
  "Promise_all ps order =
     (if ps = [] then Fulfilled [] else settle_all ps order (replicate (length ps) None))"

section \<open>The segment translator\<close>

record chat_message =
  msg_role :: string
  msg_content :: string

record request =
  req_model :: string
  req_messages :: "chat_message list"

text \<open>The part of a chat completion response that the translator reads:
  \<open>data.choices[k].message?.content\<close>.\<close>

record reply =
  reply_content :: "string option"

record choice =
  choice_message :: "reply option"

record response =
  choices :: "choice list"

text \<open>
  \<open>trim\<close> removes the white space and the line terminators of ECMAScript from both
  ends of a string. Strings are UTF-8 byte lists here, so a white space character is the
  byte sequence that encodes it: the six of the ASCII range, U+00A0, U+1680, U+2000 to
  U+200A, U+2028, U+2029, U+202F, U+205F, U+3000 and U+FEFF.
\<close>

definition whiteSpace :: "string list" where
  "whiteSpace =
     [[CHR 0x09], [CHR 0x0A], [CHR 0x0B], [CHR 0x0C], [CHR 0x0D], [CHR 0x20],
      [CHR 0xC2, CHR 0xA0], [CHR 0xE1, CHR 0x9A, CHR 0x80],
      [CHR 0xE2, CHR 0x80, CHR 0x80], [CHR 0xE2, CHR 0x80, CHR 0x81],
      [CHR 0xE2, CHR 0x80, CHR 0x82], [CHR 0xE2, CHR 0x80, CHR 0x83],
      [CHR 0xE2, CHR 0x80, CHR 0x84], [CHR 0xE2, CHR 0x80, CHR 0x85],
      [CHR 0xE2, CHR 0x80, CHR 0x86], [CHR 0xE2, CHR 0x80, CHR 0x87],
      [CHR 0xE2, CHR 0x80, CHR 0x88], [CHR 0xE2, CHR 0x80, CHR 0x89],
      [CHR 0xE2, CHR 0x80, CHR 0x8A], [CHR 0xE2, CHR 0x80, CHR 0xA8],
      [CHR 0xE2, CHR 0x80, CHR 0xA9], [CHR 0xE2, CHR 0x80, CHR 0xAF],
      [CHR 0xE2, CHR 0x81, CHR 0x9F], [CHR 0xE3, CHR 0x80, CHR 0x80],
      [CHR 0xEF, CHR 0xBB, CHR 0xBF]]"

text \<open>\<open>strip ws s\<close> removes from the front of \<open>s\<close> the sequences of \<open>ws\<close>,
  as long as one of them is a prefix.\<close>

fun strip :: "string list \<Rightarrow> string \<Rightarrow> string" where
  "strip ws [] = []"
| "strip ws (c # s) =
     (case find (\<lambda>w. w \<noteq> [] \<and> take (length w) (c # s) = w) ws of
        None \<Rightarrow> c # s
      | Some w \<Rightarrow> strip ws (drop (length w - 1) s))"

definition trim :: "string \<Rightarrow> string" where
  "trim s = rev (strip (map rev whiteSpace) (rev (strip whiteSpace s)))"

text \<open>The system message of the request, in UTF-8.\<close>

definition systemContent :: "string \<Rightarrow> string \<Rightarrow> string" where
  "systemContent fromLang toLang =
     ''Voc'' @ [CHR 0xC3, CHR 0xAA] @ '' '' @ [CHR 0xC3, CHR 0xA9] @
     '' um tradutor que converte textos do idioma '' @ fromLang @ '' para o '' @ toLang @
     ''. \<newline>Responda somente com a tradu'' @ [CHR 0xC3, CHR 0xA7, CHR 0xC3, CHR 0xA3] @
     ''o, sem coment'' @ [CHR 0xC3, CHR 0xA1] @ ''rios adicionais.''"

definition chatRequest :: "string \<Rightarrow> string \<Rightarrow> string \<Rightarrow> 'a segment_scheme \<Rightarrow> request" where
  "chatRequest model fromLang toLang seg =
     (let originalText = seg_text seg
      in \<lparr>req_model = model,
          req_messages =
            [\<lparr>msg_role = ''system'', msg_content = systemContent fromLang toLang\<rparr>,
             \<lparr>msg_role = ''user'', msg_content = originalText\<rparr>]\<rparr>)"

text \<open>\<open>response.data.choices[0].message?.content?.trim() || ''\<close>: reading
  \<open>message\<close> of a missing first choice throws; a missing message, a missing content
  and an empty trimmed content all give the empty string.\<close>

definition translatedText :: "response \<Rightarrow> error + string" where
  "translatedText r =
     (case choices r of
        [] \<Rightarrow> Inl (TypeError ''choices[0] is undefined'')
      | c # _ \<Rightarrow>
          Inr (case choice_message c of
                 None \<Rightarrow> ''''
               | Some m \<Rightarrow>
                   (case reply_content m of
                      None \<Rightarrow> ''''
                    | Some s \<Rightarrow> (if trim s = '''' then '''' else trim s))))"

text \<open>The second \<open>segments.map((seg, i) => ...)\<close>: \<open>i\<close> is the index of the segment
  at the head of the list. A throw in the callback ends the map.\<close>

fun map_translated ::
  "'a segment_scheme list \<Rightarrow> nat \<Rightarrow> response list \<Rightarrow> error + 'a segment_scheme list" where
  "map_translated [] i responses = Inr []"
| "map_translated (seg # rest) i responses =
     (if i < length responses then
        (case translatedText (responses ! i) of
           Inl e \<Rightarrow> Inl e
         | Inr text \<Rightarrow>
             (case map_translated rest (i + 1) responses of
                Inl e \<Rightarrow> Inl e
              | Inr out \<Rightarrow> Inr (seg\<lparr>seg_text := text\<rparr> # out)))
      else Inl (TypeError ''responses[i] is undefined''))"

text \<open>
  \<open>translateSegmentsWithGPT\<close>. The Translation Client is the parameter
  \<open>createChatCompletion\<close>: what the \<open>i\<close>-th call issued settles to, given its request.
  \<open>order\<close> is the order in which the calls settle. The result is the list of requests
  issued, in issue order, and the promise that the \<open>async\<close> function returns.
\<close>

definition translateSegmentsWithGPT ::
  "(nat \<Rightarrow> request \<Rightarrow> error + response) \<Rightarrow> nat list \<Rightarrow> 'a segment_scheme list \<Rightarrow>
     string \<Rightarrow> string \<Rightarrow> string \<Rightarrow> request list \<times> 'a segment_scheme list promise" where
  "translateSegmentsWithGPT createChatCompletion order segments fromLang toLang model =
     (let requests = map (chatRequest model fromLang toLang) segments;
          promises = map (\<lambda>i. createChatCompletion i (requests ! i)) [0..<length requests]
      in (requests,
          case Promise_all promises order of
            Pending \<Rightarrow> Pending
          | Rejected e \<Rightarrow> Rejected e
          | Fulfilled responses \<Rightarrow>
              (case map_translated segments 0 responses of
                 Inl e \<Rightarrow> Rejected e
               | Inr out \<Rightarrow> Fulfilled out)))"

section \<open>The pipeline orchestrator\<close>

subsection \<open>Paths\<close>

text \<open>The \<open>path\<close> functions on POSIX paths, for the paths of this program: a
  directory joined with a file name that \<open>readdir\<close> returned (no separator in it, and
  neither \<open>.\<close> nor \<open>..\<close>), so \<open>join\<close> has nothing to normalise.\<close>

definition path_join :: "string \<Rightarrow> string \<Rightarrow> string" where
  "path_join dir name = dir @ ''/'' @ name"

definition lastSegment :: "string \<Rightarrow> string" where
  "lastSegment p = rev (takeWhile (\<lambda>c. c \<noteq> CHR ''/'') (rev p))"

text \<open>\<open>path.extname\<close>: from the last dot of the last segment to its end; empty when
  the segment has no dot, or none but its first character.\<close>

definition path_extname :: "string \<Rightarrow> string" where
  "path_extname p =
     (let base = lastSegment p;
          ext = rev (takeWhile (\<lambda>c. c \<noteq> CHR ''.'') (rev base))
      in if CHR ''.'' \<notin> set base \<or> length base = length ext + 1 then ''''
         else CHR ''.'' # ext)"

text \<open>\<open>path.basename(p, ext)\<close>: the last segment, without \<open>ext\<close> when it ends with
  it and is longer.\<close>

definition path_basename :: "string \<Rightarrow> string \<Rightarrow> string" where
  "path_basename p ext =
     (let base = lastSegment p
      in if ext \<noteq> [] \<and> length ext < length base \<and> drop (length base - length ext) base = ext
         then take (length base - length ext) base
         else base)"

text \<open>
  \<open>toLowerCase\<close> on a UTF-8 string. The letters \<open>A\<close> to \<open>Z\<close> become \<open>a\<close> to
  \<open>z\<close>; the Kelvin sign U+212A becomes \<open>k\<close>, and U+0130 becomes \<open>i\<close> followed by
  U+0307. These are the only characters whose lower case has an ASCII character in it.
  Every other character outside the ASCII range has a lower case outside that range and
  is left as it is: this keeps what the program asks of the result, whether it is one of
  four ASCII strings.
\<close>

definition lowerAscii :: "char \<Rightarrow> char" where
  "lowerAscii c =
     (case map_of (zip ''ABCDEFGHIJKLMNOPQRSTUVWXYZ'' ''abcdefghijklmnopqrstuvwxyz'') c of
        Some l \<Rightarrow> l
      | None \<Rightarrow> c)"

fun toLowerCase :: "string \<Rightarrow> string" where
  "toLowerCase [] = []"
| "toLowerCase (c # s) =
     (if c = CHR 0xE2 \<and> take 2 s = [CHR 0x84, CHR 0xAA] then
        CHR ''k'' # toLowerCase (drop 2 s)
      else if c = CHR 0xC4 \<and> take 1 s = [CHR 0xB0] then
        CHR ''i'' # CHR 0xCC # CHR 0x87 # toLowerCase (drop 1 s)
      else lowerAscii c # toLowerCase s)"

subsection \<open>The world: files and console\<close>

datatype fs_entry = Dir | Text string | Audio string | Video string string

text \<open>The lines that \<open>main\<close> writes to the console, one constructor per
  \<open>console.log\<close> or \<open>console.error\<close> call of the source, in source order.\<close>

datatype event =
    NoVideoFound
  | Processing string
  | Transcribing
  | Translating
  | SrtCreated string
  | Embedding
  | FinalVideo string
  | Concluded
  | GeneralError error

record world =
  disk :: "string \<Rightarrow> fs_entry option"
  console :: "event list"

text \<open>The calls on the file system and on ffmpeg that can fail.\<close>

datatype io_call =
    EnsureDir string
  | ExtractAudio string
  | WriteFile string
  | BurnSubtitles string
  | Remove string

text \<open>
  The environment of one run: the directory of the script, the two languages that the
  user typed, and the behaviour of the collaborators. \<open>io_fault\<close> says which call on
  the file system or on ffmpeg fails, and with what; \<open>fs_listing\<close> is what
  \<open>readdir\<close> gives; \<open>whisper\<close> is the transcription of an audio file (the
  \<open>segments\<close> of the response, or the failure); \<open>gpt\<close> and \<open>gpt_order\<close> are the
  Translation Client and the completion order of its calls while the given video is
  processed.
\<close>

record 'a env =
  cfg_dirname :: string
  cfg_fromLang :: string
  cfg_toLang :: string
  io_fault :: "io_call \<Rightarrow> error option"
  fs_listing :: "string \<Rightarrow> error + string list"
  whisper :: "string \<Rightarrow> string \<Rightarrow> error + 'a segment_scheme list"
  gpt :: "string \<Rightarrow> nat \<Rightarrow> request \<Rightarrow> error + response"
  gpt_order :: "string \<Rightarrow> nat list"

text \<open>An asynchronous action takes the world and gives the world after it and what
  its promise settled to. \<open>await m k\<close> runs \<open>k\<close> on the value of \<open>m\<close>; a rejection
  of \<open>m\<close> is thrown past \<open>k\<close>, and a promise that never settles never resumes.\<close>

type_synonym 'r io = "world \<Rightarrow> world \<times> 'r promise"

definition await :: "'r io \<Rightarrow> ('r \<Rightarrow> 's io) \<Rightarrow> 's io" where
  "await m k w =
     (case m w of
        (w', Fulfilled r) \<Rightarrow> k r w'
      | (w', Rejected e) \<Rightarrow> (w', Rejected e)
      | (w', Pending) \<Rightarrow> (w', Pending))"

definition console_log :: "event \<Rightarrow> unit io" where
  "console_log ev w = (w\<lparr>console := console w @ [ev]\<rparr>, Fulfilled ())"

definition fs_ensureDir :: "'a env \<Rightarrow> string \<Rightarrow> unit io" where
  "fs_ensureDir env p w =
     (case io_fault env (EnsureDir p) of
        Some e \<Rightarrow> (w, Rejected e)
      | None \<Rightarrow>
          (if disk w p = None then w\<lparr>disk := (disk w)(p \<mapsto> Dir)\<rparr> else w, Fulfilled ()))"

definition fs_readdir :: "'a env \<Rightarrow> string \<Rightarrow> string list io" where
  "fs_readdir env p w =
     (case fs_listing env p of
        Inl e \<Rightarrow> (w, Rejected e)
      | Inr names \<Rightarrow> (w, Fulfilled names))"

definition fs_writeFile :: "'a env \<Rightarrow> string \<Rightarrow> string \<Rightarrow> unit io" where
  "fs_writeFile env p content w =
     (case io_fault env (WriteFile p) of
        Some e \<Rightarrow> (w, Rejected e)
      | None \<Rightarrow> (w\<lparr>disk := (disk w)(p \<mapsto> Text content)\<rparr>, Fulfilled ()))"

definition fs_remove :: "'a env \<Rightarrow> string \<Rightarrow> unit io" where
  "fs_remove env p w =
     (case io_fault env (Remove p) of
        Some e \<Rightarrow> (w, Rejected e)
      | None \<Rightarrow> (w\<lparr>disk := (disk w)(p := None)\<rparr>, Fulfilled ()))"

definition extractAudio :: "'a env \<Rightarrow> string \<Rightarrow> string io" where
  "extractAudio env videoPath w =
     (let baseName = path_basename videoPath (path_extname videoPath);
          audioPath = path_join (cfg_dirname env) (baseName @ ''.mp3'')
      in case io_fault env (ExtractAudio videoPath) of
           Some e \<Rightarrow> (w, Rejected e)
         | None \<Rightarrow> (w\<lparr>disk := (disk w)(audioPath \<mapsto> Audio videoPath)\<rparr>, Fulfilled audioPath))"

definition burnSubtitles :: "'a env \<Rightarrow> string \<Rightarrow> string \<Rightarrow> string \<Rightarrow> string io" where
  "burnSubtitles env videoPath srtPath outputPath w =
     (case io_fault env (BurnSubtitles videoPath) of
        Some e \<Rightarrow> (w, Rejected e)
      | None \<Rightarrow>
          (w\<lparr>disk := (disk w)(outputPath \<mapsto> Video videoPath srtPath)\<rparr>, Fulfilled outputPath))"

definition createTranscription :: "'a env \<Rightarrow> string \<Rightarrow> 'a segment_scheme list io" where
  "createTranscription env audioPath w =
     (case whisper env audioPath (cfg_fromLang env) of
        Inl e \<Rightarrow> (w, Rejected e)
      | Inr segments \<Rightarrow> (w, Fulfilled segments))"

definition translate :: "'a env \<Rightarrow> string \<Rightarrow> 'a segment_scheme list \<Rightarrow> 'a segment_scheme list io" where
  "translate env videoFile segments w =
     (w, snd (translateSegmentsWithGPT (gpt env videoFile) (gpt_order env videoFile) segments
                (cfg_fromLang env) (cfg_toLang env) ''gpt-4''))"

subsection \<open>\<open>main\<close>\<close>

text \<open>The body of the \<open>for\<close> loop: the six steps for one video.\<close>

definition processVideo :: "'a env \<Rightarrow> string \<Rightarrow> string \<Rightarrow> string \<Rightarrow> string \<Rightarrow> unit io" where
  "processVideo env VIDEOS_DIR SUBTITLES_DIR OUTPUT_DIR videoFile =
     await (console_log (Processing videoFile)) (\<lambda>_.
     let videoPath = path_join VIDEOS_DIR videoFile;
         baseName = path_basename videoFile (path_extname videoFile)
     in
     await (extractAudio env videoPath) (\<lambda>audioPath.
     await (console_log Transcribing) (\<lambda>_.
     await (createTranscription env audioPath) (\<lambda>segments.
     await (console_log Translating) (\<lambda>_.
     await (translate env videoFile segments) (\<lambda>translatedSegments.
     let srtContent = buildSrtFromSegments translatedSegments;
         srtFilename = baseName @ '' with subtitles.srt'';
         srtPath = path_join SUBTITLES_DIR srtFilename
     in
     await (fs_writeFile env srtPath srtContent) (\<lambda>_.
     await (console_log (SrtCreated srtPath)) (\<lambda>_.
     let outputFilename = baseName @ '' with subtitles.mp4'';
         outputVideoPath = path_join OUTPUT_DIR outputFilename
     in
     await (console_log Embedding) (\<lambda>_.
     await (burnSubtitles env videoPath srtPath outputVideoPath) (\<lambda>_.
     await (console_log (FinalVideo outputVideoPath)) (\<lambda>_.
     fs_remove env audioPath)))))))))))"

text \<open>The \<open>for ... of\<close> loop: a throw in the body leaves the loop.\<close>

fun for_videoFiles ::
  "'a env \<Rightarrow> string \<Rightarrow> string \<Rightarrow> string \<Rightarrow> string list \<Rightarrow> world \<Rightarrow> world \<times> unit promise" where
  "for_videoFiles env VIDEOS_DIR SUBTITLES_DIR OUTPUT_DIR [] w = (w, Fulfilled ())"
| "for_videoFiles env VIDEOS_DIR SUBTITLES_DIR OUTPUT_DIR (videoFile # rest) w =
     (case processVideo env VIDEOS_DIR SUBTITLES_DIR OUTPUT_DIR videoFile w of
        (w', Fulfilled _) \<Rightarrow> for_videoFiles env VIDEOS_DIR SUBTITLES_DIR OUTPUT_DIR rest w'
      | (w', Rejected e) \<Rightarrow> (w', Rejected e)
      | (w', Pending) \<Rightarrow> (w', Pending))"

definition validExtensions :: "string set" where
  "validExtensions = {''.mp4'', ''.mov'', ''.avi'', ''.mkv''}"

definition videoFiles_of :: "string list \<Rightarrow> string list" where
  "videoFiles_of files = filter (\<lambda>f. toLowerCase (path_extname f) \<in> validExtensions) files"

text \<open>The \<open>try\<close> block of \<open>main\<close>.\<close>

definition main_try :: "'a env \<Rightarrow> unit io" where
  "main_try env =
     (let VIDEOS_DIR = path_join (cfg_dirname env) ''videos'';
          SUBTITLES_DIR = path_join (cfg_dirname env) ''subtitles'';
          OUTPUT_DIR = path_join (cfg_dirname env) ''with-subtitles''
      in
      await (fs_ensureDir env SUBTITLES_DIR) (\<lambda>_.
      await (fs_ensureDir env OUTPUT_DIR) (\<lambda>_.
      await (fs_readdir env VIDEOS_DIR) (\<lambda>files.
      let videoFiles = videoFiles_of files
      in
      if length videoFiles = 0 then console_log NoVideoFound
      else
        await (for_videoFiles env VIDEOS_DIR SUBTITLES_DIR OUTPUT_DIR videoFiles) (\<lambda>_.
        console_log Concluded)))))"

text \<open>\<open>main\<close>: the \<open>catch\<close> clause reports whatever the \<open>try\<close> block threw.\<close>

definition main :: "'a env \<Rightarrow> unit io" where
  "main env w =
     (case main_try env w of
        (w', Rejected err) \<Rightarrow> console_log (GeneralError err) w'
      | (w', Fulfilled r) \<Rightarrow> (w', Fulfilled r)
      | (w', Pending) \<Rightarrow> (w', Pending))"

section \<open>The specification's wording of the time format\<close>









text \<open>The cue block of the segment at 0-based position \<open>i\<close>, as the specification
  words it: the integer \<open>i + 1\<close> on its own line, the two formatted times, the text,
  and one blank line.\<close>

definition cue_block :: "nat \<Rightarrow> 'a segment_scheme \<Rightarrow> string" where
  "cue_block i seg =
     show_nat (i + 1) @ ''\<newline>'' @
     secondsToSrtTime (seg_start seg) @ '' --> '' @ secondsToSrtTime (seg_end seg) @ ''\<newline>'' @
     seg_text seg @ ''\<newline>'' @
     ''\<newline>''"

section \<open>An example run\<close>

text \<open>The segments of the transcription response carry an \<open>id\<close> beside start, end
  and text. A time of the response is the double that its decimal numeral denotes.\<close>

record whisper_segment = segment +
  seg_id :: nat

definition demo_segments :: "whisper_segment list" where
  "demo_segments =
     [\<lparr>seg_start = Fin 0, seg_end = to_double 1.2, seg_text = ''Hallo'', seg_id = 0\<rparr>,
      \<lparr>seg_start = to_double 1.2, seg_end = Fin 3.5, seg_text = ''Wie geht's?'', seg_id = 1\<rparr>]"

definition demo_responses :: "response list" where
  "demo_responses =
     [\<lparr>choices = [\<lparr>choice_message = Some \<lparr>reply_content = Some ''Hello''\<rparr>\<rparr>]\<rparr>,
      \<lparr>choices = [\<lparr>choice_message = Some \<lparr>reply_content = Some '' How are you?\<newline>''\<rparr>\<rparr>]\<rparr>]"

text \<open>A Translation Client that answers the two calls, and one whose second call
  fails.\<close>

definition demo_client :: "nat \<Rightarrow> request \<Rightarrow> error + response" where
  "demo_client i req =
     (if i < length demo_responses then Inr (demo_responses ! i) else Inl (Failure ''no such call''))"

definition failing_client :: "nat \<Rightarrow> request \<Rightarrow> error + response" where
  "failing_client i req = (if i = 1 then Inl (Failure ''timeout'') else demo_client i req)"

definition demo_translated :: "whisper_segment list" where
  "demo_translated =
     [\<lparr>seg_start = Fin 0, seg_end = to_double 1.2, seg_text = ''Hello'', seg_id = 0\<rparr>,
      \<lparr>seg_start = to_double 1.2, seg_end = Fin 3.5, seg_text = ''How are you?'', seg_id = 1\<rparr>]"

text \<open>A batch of two videos (and a file that is not a video) in which the
  transcription of the first video fails; every other call succeeds.\<close>

definition demo_env :: "unit whisper_segment_ext env" where
  "demo_env =
     \<lparr>cfg_dirname = ''/app'', cfg_fromLang = ''de'', cfg_toLang = ''en'',
      io_fault = (\<lambda>c. None),
      fs_listing = (\<lambda>p. Inr [''a.mp4'', ''notes.txt'', ''b.MP4'']),
      whisper = (\<lambda>audioPath language.
        if audioPath = ''/app/a.mp3'' then Inl (Failure ''transcription failed'')
        else Inr demo_segments),
      gpt = (\<lambda>videoFile. demo_client),
      gpt_order = (\<lambda>videoFile. [1, 0])\<rparr>"

text \<open>The worlds of that run: at the start, after each \<open>ensureDir\<close>, and when the
  transcription of the first video has failed.\<close>

definition empty_world :: world where
  "empty_world = \<lparr>disk = (\<lambda>p. None), console = []\<rparr>"

definition demo_started :: world where
  "demo_started = \<lparr>disk = [''/app/subtitles'' \<mapsto> Dir], console = []\<rparr>"

definition demo_ready :: world where
  "demo_ready =
     \<lparr>disk = [''/app/subtitles'' \<mapsto> Dir, ''/app/with-subtitles'' \<mapsto> Dir], console = []\<rparr>"

definition demo_failed :: world where
  "demo_failed =
     \<lparr>disk = [''/app/subtitles'' \<mapsto> Dir, ''/app/with-subtitles'' \<mapsto> Dir,
              ''/app/a.mp3'' \<mapsto> Audio ''/app/videos/a.mp4''],
      console = [Processing ''a.mp4'', Transcribing]\<rparr>"

section \<open>Properties of the rounding\<close>

lemma pow2_powr: "pow2 e = 2 powr of_int e"
proof (cases "0 \<le> e")
  case True
  then have "(2::real) powr of_int e = 2 powr real (nat e)" by simp
  also have "\<dots> = 2 ^ nat e" by (simp add: powr_realpow)
  finally show ?thesis using True by (simp add: pow2_def)
next
  case False
  then have "(2::real) powr of_int e = 2 powr (- real (nat (- e)))" by simp
  also have "\<dots> = 1 / 2 powr real (nat (- e))" by (simp add: powr_minus divide_inverse)
  also have "\<dots> = 1 / 2 ^ nat (- e)" by (simp add: powr_realpow)
  finally show ?thesis using False by (simp add: pow2_def)
qed

lemma pow2_pos [simp]: "0 < pow2 e"
  by (simp add: pow2_powr)

lemma pow2_nonneg [simp]: "0 \<le> pow2 e"
  using pow2_pos [of e] by (rule less_imp_le)

lemma pow2_not_le_zero [simp]: "\<not> pow2 e \<le> 0"
  using pow2_pos [of e] by (simp only: not_le)

lemma pow2_neq_zero [simp]: "pow2 e \<noteq> 0"
  using pow2_pos [of e] by (simp only: less_le) simp

lemma pow2_1 [simp]: "pow2 1 = 2"
  by (simp add: pow2_def)

lemma pow2_neg_nat: "pow2 (- int n) = 1 / 2 ^ n"
  by (simp add: pow2_def)

lemma pow2_add: "pow2 (a + b) = pow2 a * pow2 b"
  by (simp add: pow2_powr powr_add)

lemma pow2_0 [simp]: "pow2 0 = 1"
  by (simp add: pow2_def)

lemma pow2_mono: "a \<le> b \<Longrightarrow> pow2 a \<le> pow2 b"
  by (simp add: pow2_powr)

lemma pow2_less: "a < b \<Longrightarrow> pow2 a < pow2 b"
  by (simp add: pow2_powr)

lemma pow2_nat: "pow2 (int n) = 2 ^ n"
  by (simp add: pow2_def)

lemma pow2_diff: "pow2 (a - b) = pow2 a / pow2 b"
  by (simp add: pow2_powr powr_diff)

lemma expo_hi_bounds: "1 \<le> x \<Longrightarrow> 2 ^ expo_hi x \<le> x \<and> x < 2 * 2 ^ expo_hi x"
proof (induction x rule: expo_hi.induct)
  case (1 x)
  show ?case
  proof (cases "x < 2")
    case True
    with "1.prems" show ?thesis by (simp add: expo_hi.simps [of x])
  next
    case False
    then have "1 \<le> x / 2" by simp
    with "1.IH" False have "2 ^ expo_hi (x / 2) \<le> x / 2 \<and> x / 2 < 2 * 2 ^ expo_hi (x / 2)"
      by simp
    with False show ?thesis by (simp add: expo_hi.simps [of x])
  qed
qed

lemma expo_lo_bounds: "0 < x \<Longrightarrow> x < 1 \<Longrightarrow> 1 \<le> x * 2 ^ expo_lo x \<and> x * 2 ^ expo_lo x < 2"
proof (induction x rule: expo_lo.induct)
  case (1 x)
  show ?case
  proof (cases "1 \<le> 2 * x")
    case True
    with "1.prems" show ?thesis
      by (simp add: expo_lo.simps [of x] expo_lo.simps [of "2 * x"])
  next
    case False
    with "1.IH" "1.prems" have "1 \<le> 2 * x * 2 ^ expo_lo (2 * x) \<and> 2 * x * 2 ^ expo_lo (2 * x) < 2"
      by simp
    with "1.prems" show ?thesis by (simp add: expo_lo.simps [of x] mult_ac)
  qed
qed

lemma exponent_bounds:
  assumes "x \<noteq> 0"
  shows "pow2 (exponent x) \<le> \<bar>x\<bar>" and "\<bar>x\<bar> < 2 * pow2 (exponent x)"
proof -
  have "pow2 (exponent x) \<le> \<bar>x\<bar> \<and> \<bar>x\<bar> < 2 * pow2 (exponent x)"
  proof (cases "1 \<le> \<bar>x\<bar>")
    case True
    with expo_hi_bounds [of "\<bar>x\<bar>"] show ?thesis by (simp add: exponent_def pow2_nat)
  next
    case False
    with assms have "0 < \<bar>x\<bar>" "\<bar>x\<bar> < 1" by simp_all
    from expo_lo_bounds [OF this]
    have "1 \<le> \<bar>x\<bar> * 2 ^ expo_lo \<bar>x\<bar>" and "\<bar>x\<bar> * 2 ^ expo_lo \<bar>x\<bar> < 2"
      by simp_all
    then have "1 / 2 ^ expo_lo \<bar>x\<bar> \<le> \<bar>x\<bar>" and "\<bar>x\<bar> < 2 / 2 ^ expo_lo \<bar>x\<bar>"
      by (simp_all add: pos_divide_le_eq pos_less_divide_eq)
    then show ?thesis using False by (simp add: exponent_def pow2_neg_nat)
  qed
  then show "pow2 (exponent x) \<le> \<bar>x\<bar>" and "\<bar>x\<bar> < 2 * pow2 (exponent x)" by simp_all
qed

lemma exponent_unique:
  assumes "pow2 e \<le> \<bar>x\<bar>" and "\<bar>x\<bar> < 2 * pow2 e"
  shows "exponent x = e"
proof -
  from assms(1) have nz: "x \<noteq> 0" using pow2_pos [of e] by auto
  note b = exponent_bounds [OF nz]
  have "pow2 e < pow2 (exponent x + 1)" using assms(1) b(2) by (simp add: pow2_add)
  then have "e < exponent x + 1" by (simp add: pow2_powr)
  moreover have "pow2 (exponent x) < pow2 (e + 1)" using assms(2) b(1) by (simp add: pow2_add)
  then have "exponent x < e + 1" by (simp add: pow2_powr)
  ultimately show ?thesis by simp
qed

lemma round_even_error: "\<bar>of_int (round_even r) - r\<bar> \<le> 1 / 2"
proof -
  have "of_int \<lfloor>r\<rfloor> \<le> r" "r < of_int \<lfloor>r\<rfloor> + 1" by linarith+
  then show ?thesis by (auto simp: round_even_def Let_def)
qed

lemma round_even_of_int [simp]: "round_even (of_int j) = j"
  by (simp add: round_even_def)

lemma round_even_ge: "of_int j \<le> r \<Longrightarrow> j \<le> round_even r"
proof -
  assume "of_int j \<le> r"
  then have "j \<le> \<lfloor>r\<rfloor>" by (simp add: le_floor_iff)
  then show ?thesis by (auto simp: round_even_def Let_def)
qed

lemma round_even_le: "r \<le> of_int j \<Longrightarrow> round_even r \<le> j"
proof -
  assume a: "r \<le> of_int j"
  show ?thesis
  proof (cases "r = of_int j")
    case True
    then show ?thesis by simp
  next
    case False
    with a have "r < of_int j" by simp
    then have "\<lfloor>r\<rfloor> < j" by (simp add: floor_less_iff)
    then show ?thesis by (auto simp: round_even_def Let_def)
  qed
qed

lemma fl_error: "\<bar>fl x - x\<bar> \<le> pow2 (ulp_exponent x) / 2"
proof -
  let ?u = "pow2 (ulp_exponent x)"
  have "\<bar>of_int (round_even (x / ?u)) - x / ?u\<bar> \<le> 1 / 2" by (rule round_even_error)
  then have "\<bar>of_int (round_even (x / ?u)) - x / ?u\<bar> * ?u \<le> 1 / 2 * ?u"
    by (rule mult_right_mono) simp
  moreover have "\<bar>of_int (round_even (x / ?u)) - x / ?u\<bar> * ?u = \<bar>fl x - x\<bar>"
  proof -
    have "\<bar>of_int (round_even (x / ?u)) - x / ?u\<bar> * ?u
        = \<bar>(of_int (round_even (x / ?u)) - x / ?u) * ?u\<bar>"
      by (simp add: abs_mult)
    also have "(of_int (round_even (x / ?u)) - x / ?u) * ?u = fl x - x"
      by (simp add: fl_def algebra_simps)
    finally show ?thesis .
  qed
  ultimately show ?thesis by simp
qed

text \<open>A grid point of the binade of x below (above) x stays below (above) its rounding.\<close>

lemma fl_ge_grid: "of_int j * pow2 (ulp_exponent x) \<le> x \<Longrightarrow> of_int j * pow2 (ulp_exponent x) \<le> fl x"
proof -
  let ?u = "pow2 (ulp_exponent x)"
  assume "of_int j * ?u \<le> x"
  then have "of_int j \<le> x / ?u" by (simp add: pos_le_divide_eq)
  then have "j \<le> round_even (x / ?u)" by (rule round_even_ge)
  then have "of_int j * ?u \<le> of_int (round_even (x / ?u)) * ?u"
    by (intro mult_right_mono) simp_all
  then show ?thesis by (simp add: fl_def)
qed

lemma fl_le_grid: "x \<le> of_int j * pow2 (ulp_exponent x) \<Longrightarrow> fl x \<le> of_int j * pow2 (ulp_exponent x)"
proof -
  let ?u = "pow2 (ulp_exponent x)"
  assume "x \<le> of_int j * ?u"
  then have "x / ?u \<le> of_int j" by (simp add: pos_divide_le_eq)
  then have "round_even (x / ?u) \<le> j" by (rule round_even_le)
  then have "of_int (round_even (x / ?u)) * ?u \<le> of_int j * ?u"
    by (intro mult_right_mono) simp_all
  then show ?thesis by (simp add: fl_def)
qed

lemma expo_hi_0: "x < 2 \<Longrightarrow> expo_hi x = 0"
  by (simp add: expo_hi.simps [of x])

lemma expo_hi_Suc: "2 \<le> x \<Longrightarrow> expo_hi x = Suc (expo_hi (x / 2))"
  by (simp add: expo_hi.simps [of x])

lemma expo_lo_0: "x \<le> 0 \<or> 1 \<le> x \<Longrightarrow> expo_lo x = 0"
  by (simp add: expo_lo.simps [of x])

lemma expo_lo_Suc: "0 < x \<Longrightarrow> x < 1 \<Longrightarrow> expo_lo x = Suc (expo_lo (2 * x))"
  by (simp add: expo_lo.simps [of x])

lemmas fl_eval = expo_hi_0 expo_hi_Suc expo_lo_0 expo_lo_Suc exponent_def ulp_exponent_def
  pow2_def round_even_def fl_def Let_def


lemma round_even_0 [simp]: "round_even 0 = 0"
  using round_even_of_int [of 0] by simp

lemma pow2_52: "pow2 52 = 2 ^ 52" and pow2_53: "pow2 53 = 2 ^ 53"
  by (simp_all add: pow2_def)

lemma of_int_on_grid: "u \<le> 0 \<Longrightarrow> of_int (n * 2 ^ nat (- u)) * pow2 u = of_int n"
proof -
  assume "u \<le> 0"
  then have "pow2 u = 1 / 2 ^ nat (- u)"
    using pow2_neg_nat [of "nat (- u)"] by simp
  then show ?thesis by simp
qed

lemma pow2_shift: "k \<le> u \<Longrightarrow> pow2 u = of_int (2 ^ nat (u - k)) * pow2 k"
proof -
  assume "k \<le> u"
  then have "pow2 u = pow2 (int (nat (u - k)) + k)" by simp
  also have "\<dots> = 2 ^ nat (u - k) * pow2 k" by (simp only: pow2_add pow2_nat)
  finally show ?thesis by simp
qed


lemma exponent_less:
  assumes "x \<noteq> 0" and "\<bar>x\<bar> < pow2 e"
  shows "exponent x < e"
proof -
  from exponent_bounds(1) [OF assms(1)] assms(2) have "pow2 (exponent x) < pow2 e" by simp
  then show ?thesis by (simp add: pow2_powr)
qed

lemma exponent_ge:
  assumes "pow2 e \<le> \<bar>x\<bar>"
  shows "e \<le> exponent x"
proof -
  from assms have nz: "x \<noteq> 0" using pow2_pos [of e] by auto
  from exponent_bounds(2) [OF nz] assms have "pow2 e < pow2 (exponent x + 1)"
    by (simp add: pow2_add)
  then have "e < exponent x + 1" by (simp add: pow2_powr)
  then show ?thesis by simp
qed

lemma ulp_exponent_le_zero:
  assumes "\<bar>x\<bar> < 2 ^ 53"
  shows "ulp_exponent x \<le> 0"
proof (cases "x = 0")
  case True
  then show ?thesis by (simp add: ulp_exponent_def exponent_def expo_lo_0)
next
  case False
  from assms have "\<bar>x\<bar> < pow2 53" by (simp only: pow2_53)
  from exponent_less [OF False this] show ?thesis by (simp add: ulp_exponent_def)
qed

text \<open>A value with a significand below \<open>2^53\<close> on a grid that is not finer than the
  subnormal one is a double: rounding leaves it as it is.\<close>

lemma fl_representable:
  assumes "\<bar>m\<bar> < 2 ^ 53" and "- 1074 \<le> k"
  shows "fl (of_int m * pow2 k) = of_int m * pow2 k"
proof (cases "m = 0")
  case True
  then show ?thesis by (simp add: fl_def)
next
  case False
  define x where "x = of_int m * pow2 k"
  define u where "u = ulp_exponent x"
  define j where "j = m * 2 ^ nat (k - u)"
  have nz: "x \<noteq> 0" using False by (simp add: x_def)
  have "\<bar>x\<bar> = \<bar>of_int m\<bar> * pow2 k" by (simp add: x_def abs_mult)
  also have "\<dots> < 2 ^ 53 * pow2 k"
  proof (rule mult_strict_right_mono)
    from assms(1) have "real_of_int \<bar>m\<bar> < real_of_int (2 ^ 53)" by (simp only: of_int_less_iff)
    then show "\<bar>real_of_int m\<bar> < 2 ^ 53" by simp
  qed simp
  also have "\<dots> = pow2 (53 + k)" by (simp only: pow2_add pow2_53)
  finally have "exponent x < 53 + k" by (rule exponent_less [OF nz])
  with assms(2) have uk: "u \<le> k" by (simp add: u_def ulp_exponent_def)
  have xj: "x = of_int j * pow2 u"
    unfolding x_def j_def by (subst pow2_shift [OF uk]) simp
  then have "x / pow2 u = of_int j" by simp
  then have "round_even (x / pow2 u) = j" by (simp only: round_even_of_int)
  then have "fl x = of_int j * pow2 u" by (simp only: fl_def u_def)
  with xj show ?thesis by (simp add: x_def)
qed

lemma fl_of_int: "\<bar>m\<bar> < 2 ^ 53 \<Longrightarrow> fl (of_int m) = of_int m"
  using fl_representable [of m 0] by simp

text \<open>On a value of the normal range the rounding error is at most the value times
  \<open>2^-53\<close>.\<close>

lemma fl_error_normal:
  assumes "pow2 (- 1022) \<le> \<bar>q\<bar>"
  shows "\<bar>fl q - q\<bar> \<le> \<bar>q\<bar> / 2 ^ 53"
proof -
  from assms have e: "- 1022 \<le> exponent q" by (rule exponent_ge)
  from assms have nz: "q \<noteq> 0" using pow2_pos [of "- 1022"] by auto
  from e have "ulp_exponent q = exponent q - 52" by (simp add: ulp_exponent_def)
  then have "pow2 (ulp_exponent q) = pow2 (exponent q) / 2 ^ 52"
    by (simp only: pow2_diff pow2_52)
  also have "\<dots> \<le> \<bar>q\<bar> / 2 ^ 52"
    using exponent_bounds(1) [OF nz] by (simp add: divide_right_mono)
  finally have "pow2 (ulp_exponent q) / 2 \<le> \<bar>q\<bar> / 2 ^ 52 / 2" by simp
  with fl_error [of q] show ?thesis by simp
qed



lemma fl_0 [simp]: "fl 0 = 0"
  by (simp add: fl_def)


lemma fl_nonneg: "0 \<le> x \<Longrightarrow> 0 \<le> fl x"
  using fl_ge_grid [of 0 x] by simp

text \<open>Rounding does not cross an integer, below \<open>2^53\<close>, nor a half, below \<open>2^52\<close>.\<close>

lemma int_on_grid:
  assumes "\<bar>x\<bar> < 2 ^ 53"
  shows "of_int (j * 2 ^ nat (- ulp_exponent x)) * pow2 (ulp_exponent x) = of_int j"
  using ulp_exponent_le_zero [OF assms] by (rule of_int_on_grid)

lemma fl_le_int:
  assumes "\<bar>x\<bar> < 2 ^ 53" and "x \<le> of_int j"
  shows "fl x \<le> of_int j"
proof -
  from assms(2)
  have "x \<le> of_int (j * 2 ^ nat (- ulp_exponent x)) * pow2 (ulp_exponent x)"
    by (simp only: int_on_grid [OF assms(1)])
  then have "fl x \<le> of_int (j * 2 ^ nat (- ulp_exponent x)) * pow2 (ulp_exponent x)"
    by (rule fl_le_grid)
  then show ?thesis by (simp only: int_on_grid [OF assms(1)])
qed

lemma fl_ge_int:
  assumes "\<bar>x\<bar> < 2 ^ 53" and "of_int j \<le> x"
  shows "of_int j \<le> fl x"
proof -
  from assms(2)
  have "of_int (j * 2 ^ nat (- ulp_exponent x)) * pow2 (ulp_exponent x) \<le> x"
    by (simp only: int_on_grid [OF assms(1)])
  then have "of_int (j * 2 ^ nat (- ulp_exponent x)) * pow2 (ulp_exponent x) \<le> fl x"
    by (rule fl_ge_grid)
  then show ?thesis by (simp only: int_on_grid [OF assms(1)])
qed




lemma fl_bounded:
  assumes "\<bar>x\<bar> < 2 ^ 53"
  shows "\<bar>fl x\<bar> \<le> 2 ^ 53"
proof -
  from assms have "x \<le> of_int (2 ^ 53)" and "of_int (- (2 ^ 53)) \<le> x" by simp_all
  then have "fl x \<le> of_int (2 ^ 53)" and "of_int (- (2 ^ 53)) \<le> fl x"
    using assms by (simp_all only: fl_le_int fl_ge_int)
  then show ?thesis by simp
qed

text \<open>A result below \<open>2^53\<close> in magnitude does not overflow.\<close>

lemma to_double_Fin: "\<bar>x\<bar> < 2 ^ 53 \<Longrightarrow> to_double x = Fin (fl x)"
proof -
  assume "\<bar>x\<bar> < 2 ^ 53"
  then have "\<bar>fl x\<bar> \<le> 2 ^ 53" by (rule fl_bounded)
  moreover have "(2::real) ^ 53 < 2 ^ 1024" by simp
  ultimately have "\<not> 2 ^ 1024 \<le> fl x" and "\<not> fl x \<le> - (2 ^ 1024)" by linarith+
  then show ?thesis by (simp add: to_double_def Let_def)
qed





section \<open>Decimal numerals and padding\<close>

lemma show_nat_small: "n < 10 \<Longrightarrow> show_nat n = [digit_char n]"
  by (simp add: show_nat.simps)

lemma show_nat_big: "10 \<le> n \<Longrightarrow> show_nat n = show_nat (n div 10) @ [digit_char (n mod 10)]"
  by (subst show_nat.simps) simp

lemma show_nat_nonempty: "show_nat n \<noteq> []"
  by (subst show_nat.simps) simp






lemma replicate_2: "replicate 2 c = [c, c]"
  by (simp add: numeral_2_eq_2)

lemma replicate_3: "replicate 3 c = [c, c, c]"
  by (simp add: numeral_3_eq_3)

lemma floor_neg_one: "\<lfloor>- 1 :: real\<rfloor> = - 1"
  by (rule floor_unique) simp_all

text \<open>The rules that evaluate \<open>secondsToSrtTime\<close> on a numeral.\<close>

lemmas time_eval =
  secondsToSrtTime_def padStart_def show_int_def show_nat_small show_nat_big digit_char_def
  trunc_def Let_def replicate_2 replicate_3 floor_neg_one to_double_Fin fl_eval

section \<open>Time formatting\<close>



















text \<open>
  C3. The specification asks that a millisecond value that rounds to 1000 be carried into
  the seconds, so that 3661.9995 is rendered \<open>01:01:02,000\<close>. \<open>secondsToSrtTime\<close>
  has no carry. At \<open>7499775 / 2048 = 3661.99951171875\<close>, a double whose fraction times
  1000 is the double 999.51171875, the milliseconds round to 1000 and are printed as a
  field of four digits. The double that the literal 3661.9995 denotes,
  \<open>2013205515579949 / 549755813888\<close>, lies below 3661.9995: its milliseconds round to
  999, and the result is not the \<open>01:01:02,000\<close> of the specification either.
\<close>

theorem secondsToSrtTime_no_carry:
  "secondsToSrtTime (Fin (7499775 / 2048)) = ''01:01:01,1000''
   \<and> secondsToSrtTime (Fin (2013205515579949 / 549755813888)) = ''01:01:01,999''"
  by (simp add: time_eval)

section \<open>The subtitle document\<close>

lemma forEach_srt_blocks:
  "forEach_srt segs i srt
    = srt @ concat (map (\<lambda>j. cue_block (i + j) (segs ! j)) [0..<length segs])"
proof (induction segs arbitrary: i srt)
  case Nil
  then show ?case by simp
next
  case (Cons seg rest)
  show ?case
    by (simp add: Cons.IH Let_def cue_block_def upt_rec [of 0 "Suc (length rest)"]
        map_Suc_upt [symmetric] comp_def del: upt_Suc)
qed

lemma forEach_srt_append:
  "forEach_srt (xs @ ys) i srt = forEach_srt ys (i + length xs) (forEach_srt xs i srt)"
  by (induction xs arbitrary: i srt) (simp_all add: Let_def)

lemma forEach_srt_prefix: "forEach_srt segs i srt = srt @ forEach_srt segs i ''''"
  by (simp add: forEach_srt_blocks)

lemma cue_block_truncate: "cue_block i (segment.truncate seg) = cue_block i seg"
  by (simp add: cue_block_def segment.truncate_def)

lemma cue_blocks_truncate:
  "map (\<lambda>i. cue_block i (map segment.truncate segs ! i)) [0..<length segs]
    = map (\<lambda>i. cue_block i (segs ! i)) [0..<length segs]"
  by (rule map_cong) (simp_all add: cue_block_truncate)

text \<open>
  C5. For every sequence of \<open>K\<close> translated segments the document is the
  concatenation of exactly \<open>K\<close> cue blocks, in input order; the block of the segment
  at 0-based position \<open>i\<close> is the integer \<open>i + 1\<close> on its own line, then
  \<open>formattedStart --> formattedEnd\<close>, then the text, then one blank line. The
  numbers are the positions: the fields that a segment carries beyond start, end and
  text (any numbering of the upstream data among them) do not change the document. No
  segment gives the empty string.
\<close>

theorem buildSrtFromSegments_cue_blocks:
  "buildSrtFromSegments segs = concat (map (\<lambda>i. cue_block i (segs ! i)) [0..<length segs])
   \<and> length (map (\<lambda>i. cue_block i (segs ! i)) [0..<length segs]) = length segs
   \<and> buildSrtFromSegments (map segment.truncate segs) = buildSrtFromSegments segs
   \<and> buildSrtFromSegments ([] :: 'a segment_scheme list) = ''''"
  by (simp add: buildSrtFromSegments_def forEach_srt_blocks cue_blocks_truncate)

section \<open>Malformed timing\<close>

lemma positive_toString_nonempty: "positive_toString x \<noteq> []"
  by (simp add: positive_toString_def Let_def show_nat_nonempty split: prod.split)

text \<open>A negative number is printed with a minus sign in front.\<close>

lemma String_of_negative:
  assumes "y < 0"
  shows "\<exists>r. String_of (Fin y) = CHR ''-'' # r \<and> r \<noteq> []"
proof -
  from assms have "\<lfloor>y\<rfloor> < 0" by (simp add: floor_less_iff)
  then have "show_int \<lfloor>y\<rfloor> = CHR ''-'' # show_nat (nat (- \<lfloor>y\<rfloor>))"
    by (simp add: show_int_def)
  moreover from assms
  have "Number_toString y = CHR ''-'' # positive_toString (- y)"
    by (simp add: Number_toString_def)
  ultimately show ?thesis
    by (simp add: show_nat_nonempty positive_toString_nonempty)
qed

text \<open>The quotient of a number of seconds of \<open>-1\<close> or less by 3600 is negative, and
  so is the double it is rounded to.\<close>

lemma fl_hours_negative:
  assumes "x \<le> - 1"
  shows "fl (x / 3600) < 0"
proof -
  let ?q = "x / 3600"
  from assms have q: "?q \<le> - (1 / 3600)" by simp
  have "pow2 (- 1022) \<le> pow2 (- 12)" by (rule pow2_mono) simp
  also have "\<dots> \<le> 1 / 3600" by (simp add: pow2_def)
  finally have "pow2 (- 1022) \<le> \<bar>?q\<bar>" using q by simp
  then have "\<bar>fl ?q - ?q\<bar> \<le> \<bar>?q\<bar> / 2 ^ 53" by (rule fl_error_normal)
  moreover from q have "\<bar>?q\<bar> = - ?q" by simp
  ultimately have "fl ?q \<le> ?q + (- ?q) / 2 ^ 53" by simp
  also have "\<dots> = ?q * (1 - 1 / 2 ^ 53)" by (simp add: algebra_simps)
  also have "\<dots> < 0" using q by (simp add: mult_less_0_iff)
  finally show ?thesis .
qed

lemma secondsToSrtTime_negative:
  assumes "x \<le> - 1"
  shows "\<exists>rest. secondsToSrtTime (Fin x) = CHR ''-'' # rest"
proof -
  let ?hours = "Math_floor (js_div (Fin x) (Fin 3600))"
  from fl_hours_negative [OF assms] have y: "fl (x / 3600) < 0" .
  then have "\<lfloor>fl (x / 3600)\<rfloor> < 0" by (simp add: floor_less_iff)
  then have neg: "real_of_int \<lfloor>fl (x / 3600)\<rfloor> < 0" by simp
  from y have "\<not> 2 ^ 1024 \<le> fl (x / 3600)" by simp
  then have "?hours = NInf \<or> ?hours = Fin (of_int \<lfloor>fl (x / 3600)\<rfloor>)"
    by (simp add: to_double_def Let_def)
  then have "\<exists>r. String_of ?hours = CHR ''-'' # r \<and> r \<noteq> []"
  proof
    assume "?hours = NInf"
    then show ?thesis by simp
  next
    assume "?hours = Fin (of_int \<lfloor>fl (x / 3600)\<rfloor>)"
    with String_of_negative [OF neg] show ?thesis by (simp only:)
  qed
  then obtain r where r: "String_of ?hours = CHR ''-'' # r" "r \<noteq> []" by blast
  have p: "padStart 2 ''0'' (CHR ''-'' # r) = CHR ''-'' # r"
    using r(2) by (cases r) (simp_all add: padStart_def)
  show ?thesis unfolding secondsToSrtTime_def Let_def r(1) p by simp
qed

text \<open>
  C4, as the specification states it: a segment with a negative or NaN start or end
  makes the builder fail before it produces a document. The builder has no check and no
  way to fail: for a start of \<open>-1\<close> and an end of NaN it returns this document.
\<close>

theorem buildSrt_malformed_timing_counterexample:
  "buildSrtFromSegments [\<lparr>seg_start = Fin (- 1), seg_end = NaN, seg_text = ''x''\<rparr>]
     = ''1\<newline>-1:-1:-1,000 --> NaN:NaN:NaN,NaN\<newline>x\<newline>\<newline>''"
  by (simp add: buildSrtFromSegments_def time_eval)

text \<open>
  C4, amended. The builder has no failure mode and does not validate: whatever the
  timing of a segment, also negative or NaN, its cue block is emitted at its position,
  between the document of the segments before it and the blocks of those after it. The
  value is not coerced to zero: NaN is rendered \<open>NaN:NaN:NaN,NaN\<close>, and a negative
  time of one second or more, a number of seconds of \<open>-1\<close> or less, is rendered
  with a minus sign in front.
\<close>

theorem buildSrt_malformed_timing_rendered:
  "buildSrtFromSegments (pre @ seg # post)
      = buildSrtFromSegments pre @ cue_block (length pre) seg
          @ forEach_srt post (length pre + 1) ''''
   \<and> secondsToSrtTime NaN = ''NaN:NaN:NaN,NaN''
   \<and> (x \<le> - 1 \<longrightarrow> (\<exists>rest. secondsToSrtTime (Fin x) = CHR ''-'' # rest))"
proof -
  have "forEach_srt (seg # post) (length pre) srt
      = srt @ cue_block (length pre) seg @ forEach_srt post (length pre + 1) ''''" for srt
    by (simp add: Let_def cue_block_def forEach_srt_prefix [of post _ "_ @ _"])
  then have "buildSrtFromSegments (pre @ seg # post)
      = buildSrtFromSegments pre @ cue_block (length pre) seg
          @ forEach_srt post (length pre + 1) ''''"
    by (simp add: buildSrtFromSegments_def forEach_srt_append)
  moreover have "secondsToSrtTime NaN = ''NaN:NaN:NaN,NaN''"
    by (simp add: time_eval)
  ultimately show ?thesis
    using secondsToSrtTime_negative by blast
qed

theorem buildSrt_malformed_timing_rendered_witness:
  "(- 1 :: real) \<le> - 1
   \<and> (\<exists>rest. secondsToSrtTime (Fin (- 1)) = CHR ''-'' # rest)
   \<and> secondsToSrtTime (Fin (- 1)) = ''-1:-1:-1,000''"
proof -
  have h: "(- 1 :: real) \<le> - 1" by simp
  have e: "secondsToSrtTime (Fin (- 1)) = ''-1:-1:-1,000''"
    by (simp add: time_eval)
  from buildSrt_malformed_timing_rendered
    [of "[]" "\<lparr>seg_start = NaN, seg_end = Fin (- 1), seg_text = ''x''\<rparr>" "[]" "- 1"] h e
  show ?thesis by blast
qed

section \<open>\<open>Promise.all\<close>\<close>

lemma those_eq_Some: "those xs = Some ys \<longleftrightarrow> xs = map Some ys"
  by (induction xs arbitrary: ys) (auto split: option.splits)

lemma those_eq_None: "those xs = None \<longleftrightarrow> None \<in> set xs"
  by (induction xs) (auto split: option.splits)

text \<open>When every promise fulfils and every index settles, the buffer is filled by
  index: the order of completion does not show in the result.\<close>

lemma settle_all_fulfilled:
  assumes "length vals = length vs"
    and "\<And>j. j < length vs \<Longrightarrow> vals ! j = None \<or> vals ! j = Some (vs ! j)"
    and "\<And>j. j < length vs \<Longrightarrow> vals ! j = None \<Longrightarrow> j \<in> set order"
    and "None \<in> set vals"
  shows "settle_all (map Inr vs) order vals = Fulfilled vs"
  using assms
proof (induction order arbitrary: vals)
  case Nil
  from Nil.prems(4) obtain j where "j < length vals" "vals ! j = None"
    by (metis in_set_conv_nth)
  with Nil.prems(1,3) show ?case by auto
next
  case (Cons i order)
  show ?case
  proof (cases "i < length vs \<and> vals ! i = None")
    case False
    have "settle_all (map Inr vs) order vals = Fulfilled vs"
    proof (rule Cons.IH)
      show "length vals = length vs" by (rule Cons.prems(1))
      show "vals ! j = None \<or> vals ! j = Some (vs ! j)" if "j < length vs" for j
        using that by (rule Cons.prems(2))
      show "j \<in> set order" if "j < length vs" "vals ! j = None" for j
        using Cons.prems(3) [OF that] that False by auto
      show "None \<in> set vals" by (rule Cons.prems(4))
    qed
    with False Cons.prems(1) show ?thesis by auto
  next
    case True
    let ?vals' = "vals[i := Some (vs ! i)]"
    have slots: "?vals' ! j = None \<or> ?vals' ! j = Some (vs ! j)" if "j < length vs" for j
      using Cons.prems(1,2) that by (cases "j = i") simp_all
    show ?thesis
    proof (cases "those ?vals'")
      case None
      have "settle_all (map Inr vs) order ?vals' = Fulfilled vs"
      proof (rule Cons.IH)
        show "length ?vals' = length vs" using Cons.prems(1) by simp
        show "?vals' ! j = None \<or> ?vals' ! j = Some (vs ! j)" if "j < length vs" for j
          using that by (rule slots)
        show "j \<in> set order" if "j < length vs" "?vals' ! j = None" for j
        proof -
          from that True Cons.prems(1) have "j \<noteq> i" by auto
          with that have "vals ! j = None" by simp
          with Cons.prems(3) [OF that(1)] \<open>j \<noteq> i\<close> show ?thesis by simp
        qed
        show "None \<in> set ?vals'" using None by (simp add: those_eq_None)
      qed
      with True None Cons.prems(1) show ?thesis by simp
    next
      case (Some ws)
      then have eq: "?vals' = map Some ws" by (simp add: those_eq_Some)
      then have len: "length ws = length vs" using Cons.prems(1) by (metis length_list_update length_map)
      have "ws ! j = vs ! j" if "j < length vs" for j
      proof -
        have "?vals' ! j = Some (ws ! j)" using eq that len by simp
        with slots [OF that] show ?thesis by simp
      qed
      with len have "ws = vs" by (simp add: list_eq_iff_nth_eq)
      with True Some Cons.prems(1) show ?thesis by simp
    qed
  qed
qed

lemma Promise_all_fulfilled:
  assumes "{..<length vs} \<subseteq> set order"
  shows "Promise_all (map Inr vs) order = Fulfilled vs"
proof (cases "vs = []")
  case True
  then show ?thesis by (simp add: Promise_all_def)
next
  case False
  have "settle_all (map Inr vs) order (replicate (length vs) None) = Fulfilled vs"
  proof (rule settle_all_fulfilled)
    show "length (replicate (length vs) None) = length vs" by simp
    show "replicate (length vs) None ! j = None \<or> replicate (length vs) None ! j = Some (vs ! j)"
      if "j < length vs" for j using that by simp
    show "j \<in> set order" if "j < length vs" for j using assms that by auto
    show "None \<in> set (replicate (length vs) None)" using False by simp
  qed
  with False show ?thesis by (simp add: Promise_all_def)
qed

text \<open>When one promise rejects and the others fulfil, the buffer is never complete:
  the result is the rejection, as soon as it arrives.\<close>

lemma settle_all_rejected:
  assumes "k \<in> set order" and "k < length ps" and "ps ! k = Inl e"
    and "\<And>j. j < length ps \<Longrightarrow> j \<noteq> k \<Longrightarrow> \<exists>v. ps ! j = Inr v"
    and "length vals = length ps" and "vals ! k = None"
  shows "settle_all ps order vals = Rejected e"
  using assms(1,5,6)
proof (induction order arbitrary: vals)
  case Nil
  then show ?case by simp
next
  case (Cons i order)
  show ?case
  proof (cases "i = k")
    case True
    with Cons.prems assms(2,3) show ?thesis by simp
  next
    case False
    with Cons.prems(1) have k: "k \<in> set order" by simp
    show ?thesis
    proof (cases "i < length ps \<and> vals ! i = None")
      case na: False
      have "settle_all ps order vals = Rejected e"
        using k Cons.prems(2,3) by (rule Cons.IH)
      with na show ?thesis by auto
    next
      case True
      with assms(4) False obtain v where v: "ps ! i = Inr v" by blast
      let ?vals' = "vals[i := Some v]"
      have "?vals' ! k = None" using False Cons.prems(3) by simp
      moreover have "k < length ?vals'" using assms(2) Cons.prems(2) by simp
      ultimately have "None \<in> set ?vals'" by (metis nth_mem)
      then have none: "those ?vals' = None" by (simp add: those_eq_None)
      have "settle_all ps order ?vals' = Rejected e"
      proof (rule Cons.IH [OF k])
        show "length ?vals' = length ps" using Cons.prems(2) by simp
        show "?vals' ! k = None" by fact
      qed
      with True v none Cons.prems(2) show ?thesis by simp
    qed
  qed
qed

lemma Promise_all_rejected:
  assumes "k \<in> set order" and "k < length ps" and "ps ! k = Inl e"
    and "\<And>j. j < length ps \<Longrightarrow> j \<noteq> k \<Longrightarrow> \<exists>v. ps ! j = Inr v"
  shows "Promise_all ps order = Rejected e"
proof -
  from assms(2) have "ps \<noteq> []" by auto
  moreover have "settle_all ps order (replicate (length ps) None) = Rejected e"
  proof (rule settle_all_rejected [OF assms])
    show "length (replicate (length ps) (None :: 'a option)) = length ps" by simp
    show "replicate (length ps) (None :: 'a option) ! k = None" using assms(2) by simp
  qed
  ultimately show ?thesis by (simp add: Promise_all_def)
qed

section \<open>The segment translator: order, timing and fields\<close>

lemma translatedText_ok: "choices r \<noteq> [] \<Longrightarrow> \<exists>t. translatedText r = Inr t"
  by (auto simp: translatedText_def split: list.splits)

lemma map_translated_Inr:
  assumes "map_translated segs i rs = Inr out"
  shows "length out = length segs \<and>
    (\<forall>j<length segs. i + j < length rs \<and> translatedText (rs ! (i + j)) = Inr (seg_text (out ! j))
        \<and> out ! j = (segs ! j)\<lparr>seg_text := seg_text (out ! j)\<rparr>)"
  using assms
proof (induction segs arbitrary: i out)
  case Nil
  then show ?case by simp
next
  case (Cons seg rest)
  from Cons.prems obtain t out' where i: "i < length rs"
    and t: "translatedText (rs ! i) = Inr t"
    and r: "map_translated rest (Suc i) rs = Inr out'"
    and o: "out = seg\<lparr>seg_text := t\<rparr> # out'"
    by (auto split: if_splits sum.splits)
  from Cons.IH [OF r] have len: "length out' = length rest"
    and ih: "\<And>j. j < length rest \<Longrightarrow> Suc i + j < length rs
        \<and> translatedText (rs ! (Suc i + j)) = Inr (seg_text (out' ! j))
        \<and> out' ! j = (rest ! j)\<lparr>seg_text := seg_text (out' ! j)\<rparr>"
    by simp_all
  show ?case
  proof (intro conjI allI impI)
    show "length out = length (seg # rest)" using o len by simp
  next
    fix j assume j: "j < length (seg # rest)"
    show "i + j < length rs" using i ih j by (cases j) auto
    show "translatedText (rs ! (i + j)) = Inr (seg_text (out ! j))"
      using t o ih j by (cases j) auto
    show "out ! j = ((seg # rest) ! j)\<lparr>seg_text := seg_text (out ! j)\<rparr>"
      using o ih j by (cases j) auto
  qed
qed

lemma map_translated_ok:
  assumes "\<And>j. j < length segs \<Longrightarrow> i + j < length rs \<and> choices (rs ! (i + j)) \<noteq> []"
  shows "\<exists>out. map_translated segs i rs = Inr out"
  using assms
proof (induction segs arbitrary: i)
  case Nil
  then show ?case by simp
next
  case (Cons seg rest)
  from Cons.prems [of 0] have i: "i < length rs" and c: "choices (rs ! i) \<noteq> []" by simp_all
  from c obtain t where t: "translatedText (rs ! i) = Inr t" using translatedText_ok by blast
  have "\<exists>out. map_translated rest (Suc i) rs = Inr out"
  proof (rule Cons.IH)
    fix j assume "j < length rest"
    then show "Suc i + j < length rs \<and> choices (rs ! (Suc i + j)) \<noteq> []"
      using Cons.prems [of "Suc j"] by simp
  qed
  with i t show ?case by auto
qed

lemma translate_unfold:
  "translateSegmentsWithGPT client order segs fromLang toLang model =
    (map (chatRequest model fromLang toLang) segs,
     case Promise_all (map (\<lambda>i. client i (chatRequest model fromLang toLang (segs ! i))) [0..<length segs]) order of
       Pending \<Rightarrow> Pending
     | Rejected e \<Rightarrow> Rejected e
     | Fulfilled responses \<Rightarrow>
         (case map_translated segs 0 responses of Inl e \<Rightarrow> Rejected e | Inr out \<Rightarrow> Fulfilled out))"
proof -
  have eq: "map (\<lambda>i. client i (map (chatRequest model fromLang toLang) segs ! i)) [0..<length segs]
      = map (\<lambda>i. client i (chatRequest model fromLang toLang (segs ! i))) [0..<length segs]"
    by (rule map_cong) simp_all
  show ?thesis
    unfolding translateSegmentsWithGPT_def Let_def length_map eq ..
qed

lemma translate_Fulfilled:
  assumes "translateSegmentsWithGPT client order segs fromLang toLang model = (reqs, Fulfilled out)"
  shows "\<exists>responses. map_translated segs 0 responses = Inr out"
proof -
  let ?P = "Promise_all
    (map (\<lambda>i. client i (chatRequest model fromLang toLang (segs ! i))) [0..<length segs]) order"
  from assms have s: "(case ?P of
       Pending \<Rightarrow> Pending
     | Rejected e \<Rightarrow> Rejected e
     | Fulfilled responses \<Rightarrow>
         (case map_translated segs 0 responses of Inl e \<Rightarrow> Rejected e | Inr out \<Rightarrow> Fulfilled out))
     = Fulfilled out"
    by (simp add: translate_unfold)
  show ?thesis
  proof (cases ?P)
    case Pending
    with s show ?thesis by simp
  next
    case (Rejected e)
    with s show ?thesis by simp
  next
    case (Fulfilled responses)
    with s have "map_translated segs 0 responses = Inr out"
      by (cases "map_translated segs 0 responses") simp_all
    then show ?thesis ..
  qed
qed

text \<open>
  C1. For every sequence of \<open>N\<close> segments whose translation requests all settle with a
  response that has a first choice, and for any order in which the requests complete
  (any list that names every index), \<open>translateSegmentsWithGPT\<close> issues one request
  per segment, in order, and returns a sequence of exactly \<open>N\<close> translated segments;
  the \<open>i\<close>-th output is the \<open>i\<close>-th input segment with its text replaced by the text
  read from the \<open>i\<close>-th response. With no segment it issues no request and returns
  the empty sequence.
\<close>

theorem translate_preserves_order:
  assumes "length resps = length segs"
    and "\<And>i. i < length segs \<Longrightarrow>
          createChatCompletion i (chatRequest model fromLang toLang (segs ! i)) = Inr (resps ! i)
          \<and> choices (resps ! i) \<noteq> []"
    and "{..<length segs} \<subseteq> set order"
  shows "\<exists>out. translateSegmentsWithGPT createChatCompletion order segs fromLang toLang model
        = (map (chatRequest model fromLang toLang) segs, Fulfilled out)
      \<and> length out = length segs
      \<and> (\<forall>i<length segs. translatedText (resps ! i) = Inr (seg_text (out ! i))
            \<and> out ! i = (segs ! i)\<lparr>seg_text := seg_text (out ! i)\<rparr>)
      \<and> translateSegmentsWithGPT createChatCompletion order' ([] :: 'a segment_scheme list)
            fromLang toLang model = ([], Fulfilled [])"
proof -
  have ps: "map (\<lambda>i. createChatCompletion i (chatRequest model fromLang toLang (segs ! i)))
      [0..<length segs] = map Inr resps"
  proof (rule nth_equalityI)
    show "length (map (\<lambda>i. createChatCompletion i (chatRequest model fromLang toLang (segs ! i)))
      [0..<length segs]) = length (map Inr resps)"
      using assms(1) by simp
  next
    fix i
    assume "i < length (map (\<lambda>i. createChatCompletion i
      (chatRequest model fromLang toLang (segs ! i))) [0..<length segs])"
    then have i: "i < length segs" by simp
    with assms(2) [of i] have "createChatCompletion i (chatRequest model fromLang toLang (segs ! i))
      = Inr (resps ! i)" by simp
    with i assms(1) show "map (\<lambda>i. createChatCompletion i
      (chatRequest model fromLang toLang (segs ! i))) [0..<length segs] ! i = map Inr resps ! i"
      by simp
  qed
  have all: "Promise_all (map Inr resps) order = Fulfilled resps"
    using assms(1,3) by (simp add: Promise_all_fulfilled)
  have "\<exists>out. map_translated segs 0 resps = Inr out"
    using assms(1,2) by (intro map_translated_ok) simp
  then obtain out where out: "map_translated segs 0 resps = Inr out" ..
  have run: "translateSegmentsWithGPT createChatCompletion order segs fromLang toLang model
      = (map (chatRequest model fromLang toLang) segs, Fulfilled out)"
    by (simp add: translate_unfold ps all out)
  have empty: "translateSegmentsWithGPT createChatCompletion order' ([] :: 'a segment_scheme list)
      fromLang toLang model = ([], Fulfilled [])"
    by (simp add: translateSegmentsWithGPT_def Promise_all_def)
  from map_translated_Inr [OF out] have len: "length out = length segs"
    and el: "\<forall>i<length segs. translatedText (resps ! i) = Inr (seg_text (out ! i))
            \<and> out ! i = (segs ! i)\<lparr>seg_text := seg_text (out ! i)\<rparr>"
    by simp_all
  show ?thesis
  proof (intro exI conjI)
    show "translateSegmentsWithGPT createChatCompletion order segs fromLang toLang model
      = (map (chatRequest model fromLang toLang) segs, Fulfilled out)" by (rule run)
    show "length out = length segs" by (rule len)
    show "\<forall>i<length segs. translatedText (resps ! i) = Inr (seg_text (out ! i))
            \<and> out ! i = (segs ! i)\<lparr>seg_text := seg_text (out ! i)\<rparr>" by (rule el)
    show "translateSegmentsWithGPT createChatCompletion order' ([] :: 'a segment_scheme list)
      fromLang toLang model = ([], Fulfilled [])" by (rule empty)
  qed
qed

text \<open>
  C6. Whenever \<open>translateSegmentsWithGPT\<close> returns translated segments, there is one
  per input segment and each has the start and the end of its input segment.
\<close>

theorem translate_keeps_timing:
  assumes "translateSegmentsWithGPT createChatCompletion order segs fromLang toLang model
      = (reqs, Fulfilled out)"
  shows "length out = length segs
    \<and> (\<forall>i<length segs. seg_start (out ! i) = seg_start (segs ! i)
          \<and> seg_end (out ! i) = seg_end (segs ! i))"
proof -
  from translate_Fulfilled [OF assms] obtain responses
    where "map_translated segs 0 responses = Inr out" ..
  from map_translated_Inr [OF this] have len: "length out = length segs"
    and upd: "\<And>i. i < length segs \<Longrightarrow> out ! i = (segs ! i)\<lparr>seg_text := seg_text (out ! i)\<rparr>"
    by simp_all
  have "seg_start (out ! i) = seg_start (segs ! i) \<and> seg_end (out ! i) = seg_end (segs ! i)"
    if "i < length segs" for i
  proof -
    have "seg_start (out ! i) = seg_start ((segs ! i)\<lparr>seg_text := seg_text (out ! i)\<rparr>)"
      and "seg_end (out ! i) = seg_end ((segs ! i)\<lparr>seg_text := seg_text (out ! i)\<rparr>)"
      using upd [OF that] by simp_all
    then show ?thesis by simp
  qed
  with len show ?thesis by simp
qed

text \<open>
  C10. Whenever \<open>translateSegmentsWithGPT\<close> returns translated segments, each is its
  input segment with the text replaced and nothing else changed: the fields beyond
  start, end and text (the \<open>more\<close> part of the record) are those of the input.
\<close>

theorem translate_spreads_fields:
  assumes "translateSegmentsWithGPT createChatCompletion order segs fromLang toLang model
      = (reqs, Fulfilled out)"
  shows "length out = length segs
    \<and> (\<forall>i<length segs. segment.more (out ! i) = segment.more (segs ! i)
          \<and> out ! i = (segs ! i)\<lparr>seg_text := seg_text (out ! i)\<rparr>)"
proof -
  from translate_Fulfilled [OF assms] obtain responses
    where "map_translated segs 0 responses = Inr out" ..
  from map_translated_Inr [OF this] have len: "length out = length segs"
    and upd: "\<And>i. i < length segs \<Longrightarrow> out ! i = (segs ! i)\<lparr>seg_text := seg_text (out ! i)\<rparr>"
    by simp_all
  have "segment.more (out ! i) = segment.more (segs ! i)" if "i < length segs" for i
  proof -
    have "segment.more (out ! i) = segment.more ((segs ! i)\<lparr>seg_text := seg_text (out ! i)\<rparr>)"
      using upd [OF that] by simp
    then show ?thesis by simp
  qed
  with len upd show ?thesis by simp
qed

text \<open>
  C2, amended. For every sequence of segments in which exactly one translation request
  fails and the others succeed, \<open>translateSegmentsWithGPT\<close> returns no sequence: once
  the failing request has settled, whatever the completion order, its promise is
  rejected with the error of that request. There is no fallback value and no translated
  segment is returned.
\<close>

theorem translate_one_failure_rejects:
  assumes "k < length segs" and "k \<in> set order"
    and "createChatCompletion k (chatRequest model fromLang toLang (segs ! k)) = Inl e"
    and "\<And>j. j < length segs \<Longrightarrow> j \<noteq> k \<Longrightarrow>
          \<exists>r. createChatCompletion j (chatRequest model fromLang toLang (segs ! j)) = Inr r"
  shows "snd (translateSegmentsWithGPT createChatCompletion order segs fromLang toLang model)
      = Rejected e"
proof -
  let ?ps = "map (\<lambda>i. createChatCompletion i (chatRequest model fromLang toLang (segs ! i)))
      [0..<length segs]"
  have "Promise_all ?ps order = Rejected e"
  proof (rule Promise_all_rejected [of k])
    show "k \<in> set order" by fact
    show "k < length ?ps" using assms(1) by simp
    show "?ps ! k = Inl e" using assms(1,3) by simp
    show "\<exists>v. ?ps ! j = Inr v" if "j < length ?ps" "j \<noteq> k" for j
      using assms(4) [of j] that by simp
  qed
  then show ?thesis by (simp add: translate_unfold)
qed

subsection \<open>The example run of the translator\<close>

lemma upt_2: "[0..<2] = [0, 1]"
  by (simp add: numeral_2_eq_2)

lemma demo_translatedText:
  "translatedText (demo_responses ! 0) = Inr ''Hello''"
  "translatedText (demo_responses ! 1) = Inr ''How are you?''"
  by (simp_all add: demo_responses_def translatedText_def trim_def whiteSpace_def)

lemma demo_translation:
  "translateSegmentsWithGPT demo_client [1, 0] demo_segments ''de'' ''en'' ''gpt-4''
    = (map (chatRequest ''gpt-4'' ''de'' ''en'') demo_segments, Fulfilled demo_translated)"
proof -
  have ps: "map (\<lambda>i. demo_client i (chatRequest ''gpt-4'' ''de'' ''en'' (demo_segments ! i)))
      [0..<length demo_segments] = map Inr demo_responses"
    by (simp add: demo_segments_def demo_client_def demo_responses_def upt_2)
  have all: "Promise_all (map Inr demo_responses) [1, 0] = Fulfilled demo_responses"
    by (rule Promise_all_fulfilled) (auto simp: demo_responses_def)
  have "map_translated demo_segments 0 demo_responses = Inr demo_translated"
    using demo_translatedText
    by (simp add: demo_segments_def demo_translated_def) (simp add: demo_responses_def)
  with ps all show ?thesis by (simp add: translate_unfold)
qed

theorem translate_preserves_order_witness:
  "length demo_responses = length demo_segments
   \<and> {..<length demo_segments} \<subseteq> set [1, 0]
   \<and> translateSegmentsWithGPT demo_client [1, 0] demo_segments ''de'' ''en'' ''gpt-4''
       = (map (chatRequest ''gpt-4'' ''de'' ''en'') demo_segments, Fulfilled demo_translated)
   \<and> translateSegmentsWithGPT demo_client [] ([] :: whisper_segment list) ''de'' ''en'' ''gpt-4''
       = ([], Fulfilled [])"
proof -
  have h1: "length demo_responses = length demo_segments"
    by (simp add: demo_responses_def demo_segments_def)
  have h2: "demo_client i (chatRequest ''gpt-4'' ''de'' ''en'' (demo_segments ! i)) = Inr (demo_responses ! i)
      \<and> choices (demo_responses ! i) \<noteq> []" if "i < length demo_segments" for i
  proof -
    from that have "i = 0 \<or> i = 1" by (auto simp: demo_segments_def)
    then show ?thesis by (auto simp: demo_client_def demo_responses_def)
  qed
  have h3: "{..<length demo_segments} \<subseteq> set [1, 0]"
    by (auto simp: demo_segments_def)
  from translate_preserves_order [where createChatCompletion = demo_client and resps = demo_responses
      and segs = demo_segments and model = "''gpt-4''" and fromLang = "''de''" and toLang = "''en''"
      and order = "[1, 0]" and order' = "[]", OF h1 h2 h3]
  obtain out where run: "translateSegmentsWithGPT demo_client [1, 0] demo_segments ''de'' ''en'' ''gpt-4''
        = (map (chatRequest ''gpt-4'' ''de'' ''en'') demo_segments, Fulfilled out)"
    and len: "length out = length demo_segments"
    and el: "\<forall>i<length demo_segments. translatedText (demo_responses ! i) = Inr (seg_text (out ! i))
            \<and> out ! i = (demo_segments ! i)\<lparr>seg_text := seg_text (out ! i)\<rparr>"
    and empty: "translateSegmentsWithGPT demo_client [] ([] :: whisper_segment list) ''de'' ''en'' ''gpt-4''
        = ([], Fulfilled [])"
    by blast
  have i0: "(0::nat) < length demo_segments" and i1: "(1::nat) < length demo_segments"
    by (simp_all add: demo_segments_def)
  from el i0 have "translatedText (demo_responses ! 0) = Inr (seg_text (out ! 0))"
    and u0: "out ! 0 = (demo_segments ! 0)\<lparr>seg_text := seg_text (out ! 0)\<rparr>"
    by blast+
  then have t0: "seg_text (out ! 0) = ''Hello''" using demo_translatedText by simp
  from el i1 have "translatedText (demo_responses ! 1) = Inr (seg_text (out ! 1))"
    and u1: "out ! 1 = (demo_segments ! 1)\<lparr>seg_text := seg_text (out ! 1)\<rparr>"
    by blast+
  then have t1: "seg_text (out ! 1) = ''How are you?''" using demo_translatedText by simp
  from u0 have "out ! 0 = (demo_segments ! 0)\<lparr>seg_text := ''Hello''\<rparr>"
    by (simp only: t0)
  moreover from u1 have "out ! 1 = (demo_segments ! 1)\<lparr>seg_text := ''How are you?''\<rparr>"
    by (simp only: t1)
  ultimately have "out ! 0 = demo_translated ! 0" and "out ! 1 = demo_translated ! 1"
    by (simp_all add: demo_segments_def demo_translated_def)
  with len have "out = demo_translated"
    by (intro nth_equalityI) (auto simp: demo_segments_def demo_translated_def less_Suc_eq)
  with run h1 h3 empty show ?thesis by simp
qed

theorem translate_keeps_timing_witness:
  "translateSegmentsWithGPT demo_client [1, 0] demo_segments ''de'' ''en'' ''gpt-4''
       = (map (chatRequest ''gpt-4'' ''de'' ''en'') demo_segments, Fulfilled demo_translated)
   \<and> length demo_translated = length demo_segments
   \<and> seg_start (demo_translated ! 1) = seg_start (demo_segments ! 1)
   \<and> seg_end (demo_translated ! 1) = seg_end (demo_segments ! 1)
   \<and> seg_end (demo_translated ! 1) = Fin 3.5"
proof -
  have "(1::nat) < length demo_segments" by (simp add: demo_segments_def)
  moreover have "seg_end (demo_translated ! 1) = Fin 3.5" by (simp add: demo_translated_def)
  ultimately show ?thesis
    using translate_keeps_timing [OF demo_translation] demo_translation by simp
qed

theorem translate_spreads_fields_witness:
  "translateSegmentsWithGPT demo_client [1, 0] demo_segments ''de'' ''en'' ''gpt-4''
       = (map (chatRequest ''gpt-4'' ''de'' ''en'') demo_segments, Fulfilled demo_translated)
   \<and> length demo_translated = length demo_segments
   \<and> segment.more (demo_translated ! 1) = segment.more (demo_segments ! 1)
   \<and> seg_id (demo_translated ! 1) = 1
   \<and> demo_translated ! 1 = (demo_segments ! 1)\<lparr>seg_text := ''How are you?''\<rparr>"
proof -
  have i: "(1::nat) < length demo_segments" by (simp add: demo_segments_def)
  have e: "seg_id (demo_translated ! 1) = 1"
    and t: "seg_text (demo_translated ! 1) = ''How are you?''"
    by (simp_all add: demo_translated_def)
  from translate_spreads_fields [OF demo_translation]
  have len: "length demo_translated = length demo_segments"
    and all: "\<forall>i<length demo_segments. segment.more (demo_translated ! i) = segment.more (demo_segments ! i)
        \<and> demo_translated ! i = (demo_segments ! i)\<lparr>seg_text := seg_text (demo_translated ! i)\<rparr>"
    by blast+
  from all i have m: "segment.more (demo_translated ! 1) = segment.more (demo_segments ! 1)"
    and u: "demo_translated ! 1 = (demo_segments ! 1)\<lparr>seg_text := seg_text (demo_translated ! 1)\<rparr>"
    by blast+
  from u have "demo_translated ! 1 = (demo_segments ! 1)\<lparr>seg_text := ''How are you?''\<rparr>"
    by (simp only: t)
  with demo_translation len m e show ?thesis by (intro conjI)
qed

text \<open>
  C2, as the specification states it: when exactly one request fails, the translator
  still returns \<open>N\<close> segments, with a fallback value in the failing slot. With the
  second of two requests failing, in either completion order, the code returns no
  sequence: its promise is rejected with the error of that request.
\<close>

theorem translate_one_failure_counterexample:
  "snd (translateSegmentsWithGPT failing_client [0, 1] demo_segments ''de'' ''en'' ''gpt-4'')
     = Rejected (Failure ''timeout'')
   \<and> snd (translateSegmentsWithGPT failing_client [1, 0] demo_segments ''de'' ''en'' ''gpt-4'')
     = Rejected (Failure ''timeout'')"
  by (simp add: translate_unfold demo_segments_def upt_2 failing_client_def demo_client_def
      demo_responses_def Promise_all_def)

theorem translate_one_failure_rejects_witness:
  "(1::nat) < length demo_segments \<and> (1::nat) \<in> set [0, 1]
   \<and> failing_client 1 (chatRequest ''gpt-4'' ''de'' ''en'' (demo_segments ! 1)) = Inl (Failure ''timeout'')
   \<and> (\<exists>r. failing_client 0 (chatRequest ''gpt-4'' ''de'' ''en'' (demo_segments ! 0)) = Inr r)
   \<and> snd (translateSegmentsWithGPT failing_client [0, 1] demo_segments ''de'' ''en'' ''gpt-4'')
       = Rejected (Failure ''timeout'')"
proof -
  have h1: "(1::nat) < length demo_segments" by (simp add: demo_segments_def)
  have h2: "(1::nat) \<in> set [0, 1]" by simp
  have h3: "failing_client 1 (chatRequest ''gpt-4'' ''de'' ''en'' (demo_segments ! 1))
      = Inl (Failure ''timeout'')"
    by (simp add: failing_client_def)
  have h4: "\<exists>r. failing_client j (chatRequest ''gpt-4'' ''de'' ''en'' (demo_segments ! j)) = Inr r"
    if "j < length demo_segments" "j \<noteq> 1" for j
  proof -
    from that have "j = 0" by (auto simp: demo_segments_def)
    then show ?thesis by (simp add: failing_client_def demo_client_def demo_responses_def)
  qed
  from translate_one_failure_rejects [where createChatCompletion = failing_client and k = 1
      and segs = demo_segments and model = "''gpt-4''" and fromLang = "''de''" and toLang = "''en''"
      and order = "[0, 1]" and e = "Failure ''timeout''", OF h1 h2 h3 h4]
    h1 h2 h3 h4 [of 0]
  show ?thesis by (simp add: demo_segments_def)
qed

section \<open>The pipeline orchestrator: failures\<close>

lemma demo_extnames:
  "path_extname ''a.mp4'' = ''.mp4''"
  "path_extname ''notes.txt'' = ''.txt''"
  "path_extname ''b.MP4'' = ''.MP4''"
  "path_extname ''/app/videos/a.mp4'' = ''.mp4''"
  "path_extname ''/app/videos/b.MP4'' = ''.MP4''"
  by (simp_all add: path_extname_def lastSegment_def Let_def)

lemma demo_basenames:
  "path_basename ''a.mp4'' ''.mp4'' = ''a''"
  "path_basename ''b.MP4'' ''.MP4'' = ''b''"
  "path_basename ''/app/videos/a.mp4'' ''.mp4'' = ''a''"
  "path_basename ''/app/videos/b.MP4'' ''.MP4'' = ''b''"
  by (simp_all add: path_basename_def lastSegment_def Let_def)

lemma demo_videoFiles:
  "videoFiles_of [''a.mp4'', ''notes.txt'', ''b.MP4''] = [''a.mp4'', ''b.MP4'']"
  by (simp add: videoFiles_of_def demo_extnames lowerAscii_def validExtensions_def)

lemma demo_first_video:
  "processVideo demo_env ''/app/videos'' ''/app/subtitles'' ''/app/with-subtitles'' ''a.mp4'' w
    = (w\<lparr>disk := (disk w)(''/app/a.mp3'' \<mapsto> Audio ''/app/videos/a.mp4''),
          console := console w @ [Processing ''a.mp4'', Transcribing]\<rparr>,
       Rejected (Failure ''transcription failed''))"
  by (simp add: processVideo_def await_def console_log_def extractAudio_def createTranscription_def
      demo_env_def path_join_def demo_extnames demo_basenames Let_def)

lemma await_Fulfilled:
  "await m k w = (w', Fulfilled r) \<longleftrightarrow> (\<exists>w1 a. m w = (w1, Fulfilled a) \<and> k a w1 = (w', Fulfilled r))"
proof -
  obtain w1 p where m: "m w = (w1, p)" by (cases "m w")
  show ?thesis by (cases p) (simp_all add: await_def m)
qed

text \<open>A video that is processed to the end has its audio file removed.\<close>

lemma processVideo_removes_audio:
  assumes "processVideo env V S T videoFile w = (w', Fulfilled ())"
  shows "disk w' (path_join (cfg_dirname env)
      (path_basename (path_join V videoFile) (path_extname (path_join V videoFile)) @ ''.mp3'')) = None"
proof -
  from assms obtain audioPath wx wy
    where e: "extractAudio env (path_join V videoFile) wx = (wy, Fulfilled audioPath)"
      and r: "\<exists>wz. fs_remove env audioPath wz = (w', Fulfilled ())"
    unfolding processVideo_def Let_def await_Fulfilled by blast
  from e have "audioPath = path_join (cfg_dirname env)
      (path_basename (path_join V videoFile) (path_extname (path_join V videoFile)) @ ''.mp3'')"
    by (auto simp: extractAudio_def Let_def split: option.splits)
  moreover from r have "disk w' audioPath = None"
    by (auto simp: fs_remove_def split: option.splits)
  ultimately show ?thesis by simp
qed

text \<open>The document of the translated example segments: the end-to-end scenario of
  the specification.\<close>

lemma demo_srt:
  "buildSrtFromSegments demo_translated
    = ''1\<newline>00:00:00,000 --> 00:00:01,200\<newline>Hello\<newline>\<newline>2\<newline>00:00:01,200 --> 00:00:03,500\<newline>How are you?\<newline>\<newline>''"
  by (simp add: buildSrtFromSegments_def demo_translated_def time_eval)

lemma demo_translate:
  "translate demo_env ''b.MP4'' demo_segments w = (w, Fulfilled demo_translated)"
  using demo_translation by (simp add: translate_def demo_env_def)

lemma demo_second_video:
  "snd (processVideo demo_env ''/app/videos'' ''/app/subtitles'' ''/app/with-subtitles'' ''b.MP4'' w)
     = Fulfilled ()"
  "disk (fst (processVideo demo_env ''/app/videos'' ''/app/subtitles'' ''/app/with-subtitles''
     ''b.MP4'' w)) ''/app/b.mp3'' = None"
  "disk (fst (processVideo demo_env ''/app/videos'' ''/app/subtitles'' ''/app/with-subtitles''
     ''b.MP4'' w)) ''/app/subtitles/b with subtitles.srt''
     = Some (Text (buildSrtFromSegments demo_translated))"
  "disk (fst (processVideo demo_env ''/app/videos'' ''/app/subtitles'' ''/app/with-subtitles''
     ''b.MP4'' w)) ''/app/with-subtitles/b with subtitles.mp4''
     = Some (Video ''/app/videos/b.MP4'' ''/app/subtitles/b with subtitles.srt'')"
proof -
  have w: "whisper demo_env ''/app/b.mp3'' (cfg_fromLang demo_env) = Inr demo_segments"
    and f: "io_fault demo_env c = None" and d: "cfg_dirname demo_env = ''/app''" for c
    by (simp_all add: demo_env_def)
  have "processVideo demo_env ''/app/videos'' ''/app/subtitles'' ''/app/with-subtitles'' ''b.MP4'' w
    = (w\<lparr>disk := (disk w)(''/app/b.mp3'' \<mapsto> Audio ''/app/videos/b.MP4'',
              ''/app/subtitles/b with subtitles.srt'' \<mapsto> Text (buildSrtFromSegments demo_translated),
              ''/app/with-subtitles/b with subtitles.mp4'' \<mapsto>
                 Video ''/app/videos/b.MP4'' ''/app/subtitles/b with subtitles.srt'',
              ''/app/b.mp3'' := None),
           console := console w @ [Processing ''b.MP4'', Transcribing, Translating,
              SrtCreated ''/app/subtitles/b with subtitles.srt'', Embedding,
              FinalVideo ''/app/with-subtitles/b with subtitles.mp4'']\<rparr>, Fulfilled ())"
    by (simp add: processVideo_def await_def console_log_def extractAudio_def
        createTranscription_def fs_writeFile_def burnSubtitles_def fs_remove_def
        demo_translate w f d path_join_def demo_extnames demo_basenames Let_def)
  then show
    "snd (processVideo demo_env ''/app/videos'' ''/app/subtitles'' ''/app/with-subtitles'' ''b.MP4'' w)
       = Fulfilled ()"
    "disk (fst (processVideo demo_env ''/app/videos'' ''/app/subtitles'' ''/app/with-subtitles''
       ''b.MP4'' w)) ''/app/b.mp3'' = None"
    "disk (fst (processVideo demo_env ''/app/videos'' ''/app/subtitles'' ''/app/with-subtitles''
       ''b.MP4'' w)) ''/app/subtitles/b with subtitles.srt''
       = Some (Text (buildSrtFromSegments demo_translated))"
    "disk (fst (processVideo demo_env ''/app/videos'' ''/app/subtitles'' ''/app/with-subtitles''
       ''b.MP4'' w)) ''/app/with-subtitles/b with subtitles.mp4''
       = Some (Video ''/app/videos/b.MP4'' ''/app/subtitles/b with subtitles.srt'')"
    by simp_all
qed




lemma demo_paths:
  "path_join (cfg_dirname demo_env) ''videos'' = ''/app/videos''"
  "path_join (cfg_dirname demo_env) ''subtitles'' = ''/app/subtitles''"
  "path_join (cfg_dirname demo_env) ''with-subtitles'' = ''/app/with-subtitles''"
  by (simp_all add: demo_env_def path_join_def)

lemma demo_dirs:
  "fs_ensureDir demo_env ''/app/subtitles'' empty_world = (demo_started, Fulfilled ())"
  "fs_ensureDir demo_env ''/app/with-subtitles'' demo_started = (demo_ready, Fulfilled ())"
  "fs_readdir demo_env ''/app/videos'' w = (w, Fulfilled [''a.mp4'', ''notes.txt'', ''b.MP4''])"
  by (simp_all add: fs_ensureDir_def fs_readdir_def demo_env_def empty_world_def
      demo_started_def demo_ready_def)

lemma demo_first_failed:
  "processVideo demo_env ''/app/videos'' ''/app/subtitles'' ''/app/with-subtitles'' ''a.mp4''
      demo_ready = (demo_failed, Rejected (Failure ''transcription failed''))"
  by (simp add: demo_first_video demo_ready_def demo_failed_def)

lemma demo_main:
  "main demo_env empty_world
    = (demo_failed\<lparr>console := console demo_failed
          @ [GeneralError (Failure ''transcription failed'')]\<rparr>, Fulfilled ())"
  by (simp add: main_def main_try_def await_def Let_def demo_paths demo_dirs demo_videoFiles
      demo_first_failed console_log_def)



text \<open>
  C9. The specification asks that the temporary audio file of a video be removed on
  every terminal path. \<open>main\<close> removes it as the last step of the loop body only: in
  the example batch the transcription of \<open>a.mp4\<close> fails, \<open>main\<close> ends, and
  \<open>/app/a.mp3\<close>, which did not exist before, is still on the disk; the audio file of
  a video that is processed to the end (\<open>b.MP4\<close>) is removed.
\<close>

theorem audio_left_after_failure:
  "snd (main demo_env empty_world) = Fulfilled ()
   \<and> disk demo_ready ''/app/a.mp3'' = None
   \<and> disk (fst (main demo_env empty_world)) ''/app/a.mp3'' = Some (Audio ''/app/videos/a.mp4'')
   \<and> disk (fst (processVideo demo_env ''/app/videos'' ''/app/subtitles'' ''/app/with-subtitles''
         ''b.MP4'' demo_ready)) ''/app/b.mp3'' = None"
  by (simp add: demo_main demo_failed_def demo_ready_def demo_second_video)

end
